theory Spec2Isabelle
  imports Complex_Main "HOL-Library.Word" "HOL-Library.Monad_Syntax"
begin

section \<open>Machine types\<close>

text \<open>
  The fixed-width unsigned integers of \<^verbatim>\<open>stdint.h\<close> are words; \<^verbatim>\<open>int\<close> is taken to be
  32 bits wide, and a conversion from \<^verbatim>\<open>uint32_t\<close> to \<^verbatim>\<open>int\<close> reads the same bits as a
  two's complement number (\<open>sint\<close>), as GCC defines it.

  A \<^verbatim>\<open>double\<close> is either a finite number, modelled by the real it stands for (rounding is
  not modelled), or one of the values that are not finite (an infinity or a NaN), which
  this program never tells apart: it only compares a \<^verbatim>\<open>double\<close> with zero and converts it
  to an integer. Every divisor is a converted integer, hence finite. For the means the
  model is exact: the quotient of an integer below \<open>2 ^ 32\<close> by an integer between 1 and 25
  is either an integer or at least \<open>1 / 25\<close> away from the next one, so that rounding does
  not change its floor.

  A computation that leaves the behaviour defined by C (a read outside an array, a
  conversion of a \<^verbatim>\<open>double\<close> that the integer type cannot hold) has the value \<open>None\<close>.
\<close>

type_synonym u8 = "8 word"

type_synonym u16 = "16 word"

type_synonym u32 = "32 word"

datatype double = Num real | NaN_or_Inf

fun dadd :: "double \<Rightarrow> double \<Rightarrow> double" where
  "dadd (Num a) (Num b) = Num (a + b)"
| "dadd _ _ = NaN_or_Inf"

fun dsub :: "double \<Rightarrow> double \<Rightarrow> double" where
  "dsub (Num a) (Num b) = Num (a - b)"
| "dsub _ _ = NaN_or_Inf"

text \<open>Division by a finite divisor; a zero divisor gives an infinity or a NaN.\<close>

fun ddiv :: "double \<Rightarrow> real \<Rightarrow> double" where
  "ddiv (Num a) b = (if b = 0 then NaN_or_Inf else Num (a / b))"
| "ddiv NaN_or_Inf b = NaN_or_Inf"

text \<open>\<^verbatim>\<open>pow(x, 2)\<close>, \<^verbatim>\<open>sqrt(x)\<close> and \<^verbatim>\<open>floor(x)\<close> of \<^verbatim>\<open>math.h\<close>.\<close>

fun dpow2 :: "double \<Rightarrow> double" where
  "dpow2 (Num a) = Num (a ^ 2)"
| "dpow2 NaN_or_Inf = NaN_or_Inf"

fun dsqrt :: "double \<Rightarrow> double" where
  "dsqrt (Num a) = (if a < 0 then NaN_or_Inf else Num (sqrt a))"
| "dsqrt NaN_or_Inf = NaN_or_Inf"

fun dfloor :: "double \<Rightarrow> double" where
  "dfloor (Num a) = Num (of_int \<lfloor>a\<rfloor>)"
| "dfloor NaN_or_Inf = NaN_or_Inf"

text \<open>The conversions \<^verbatim>\<open>(double) x\<close> of an unsigned integer and \<^verbatim>\<open>(uint16_t) d\<close>.\<close>

definition to_double :: "'a::len word \<Rightarrow> double" where
  "to_double w = Num (real (unat w))"

fun to_uint16 :: "double \<Rightarrow> u16 option" where
  "to_uint16 (Num a) =
     (if -1 < a \<and> a < 65536 then Some (word_of_int (if a < 0 then \<lceil>a\<rceil> else \<lfloor>a\<rfloor>)) else None)"
| "to_uint16 NaN_or_Inf = None"

text \<open>
  \<^verbatim>\<open>a[j]\<close> read and \<^verbatim>\<open>a[j] = v\<close> written, for an array of \<open>length a\<close> elements and an
  index of type \<^verbatim>\<open>int\<close>.
\<close>

definition elem :: "'a list \<Rightarrow> int \<Rightarrow> 'a option" where
  "elem a j = (if 0 \<le> j \<and> j < int (length a) then Some (a ! nat j) else None)"

definition store :: "'a list \<Rightarrow> int \<Rightarrow> 'a \<Rightarrow> 'a list option" where
  "store a j v = (if 0 \<le> j \<and> j < int (length a) then Some (a[nat j := v]) else None)"

section \<open>Constants of \<^verbatim>\<open>Sensor.h\<close> and \<^verbatim>\<open>Sensor.c\<close>\<close>

abbreviation (input) SENSOR_HIST_LEN :: nat where "SENSOR_HIST_LEN \<equiv> 50"

abbreviation (input) PS_WINDOW :: nat where "PS_WINDOW \<equiv> 25"

abbreviation (input) ALS_WINDOW :: nat where "ALS_WINDOW \<equiv> 25"

abbreviation (input) DIST_LOOKUP_LEN :: nat where "DIST_LOOKUP_LEN \<equiv> 16"

definition distanceTable :: "u16 list" where
  "distanceTable = [0, 2, 4, 6, 8, 10, 12, 14, 16, 18, 20, 22, 24, 26, 28, 30]"

section \<open>Distance lookup\<close>

text \<open>
  \<^verbatim>\<open>Distance_Lookup\<close>: the \<^verbatim>\<open>for\<close> loop from the value \<open>i\<close> of its counter on, with the
  fallback read after it. The tables are arrays that the pointers point to the start of.
\<close>

function Distance_Lookup_from ::
  "u8 \<Rightarrow> u16 \<Rightarrow> u16 list \<Rightarrow> u16 list \<Rightarrow> u8 \<Rightarrow> double option" where
  "Distance_Lookup_from i psVal proxTable distTable tableLen =
    (if i < tableLen then
       do {
         p \<leftarrow> elem proxTable (uint i);
         if psVal \<ge> p then
           if i = 0 then
             do { d \<leftarrow> elem distTable (uint i); Some (to_double d) }
           else
             do {
               d1 \<leftarrow> elem distTable (uint i - 1);
               p1 \<leftarrow> elem proxTable (uint i - 1);
               d \<leftarrow> elem distTable (uint i);
               Some (dadd (to_double d1)
                 (ddiv (Num ((real (unat psVal) - real (unat p1)) * (real (unat d) - real (unat d1))))
                   (real (unat p) - real (unat p1))))
             }
         else Distance_Lookup_from (i + 1) psVal proxTable distTable tableLen
       }
     else do { d \<leftarrow> elem distTable (uint tableLen - 1); Some (to_double d) })"
  by pat_completeness auto

termination
proof (relation "measure (\<lambda>(i, psVal, proxTable, distTable, tableLen). unat tableLen - unat i)")
  show "wf (measure (\<lambda>(i, psVal, proxTable, distTable, tableLen). unat tableLen - unat i))"
    by simp
next
  fix i :: u8 and psVal :: u16 and proxTable distTable :: "u16 list" and tableLen :: u8 and p :: u16
  assume lt: "i < tableLen"
  then have "unat i < unat tableLen"
    by (simp add: word_less_nat_alt)
  moreover have "unat tableLen < 256"
    using unsigned_less [of tableLen, where ?'a = nat] by simp
  ultimately have "unat (i + 1) = unat i + 1"
    by (simp add: unat_word_ariths)
  moreover note \<open>unat i < unat tableLen\<close>
  ultimately show "((i + 1, psVal, proxTable, distTable, tableLen), i, psVal, proxTable, distTable, tableLen)
      \<in> measure (\<lambda>(i, psVal, proxTable, distTable, tableLen). unat tableLen - unat i)"
    by simp
qed

declare Distance_Lookup_from.simps [simp del]

definition Distance_Lookup :: "u16 \<Rightarrow> u16 list \<Rightarrow> u16 list \<Rightarrow> u8 \<Rightarrow> double option" where
  "Distance_Lookup psVal proxTable distTable tableLen =
     Distance_Lookup_from 0 psVal proxTable distTable tableLen"

section \<open>The sensor\<close>

text \<open>
  \<^verbatim>\<open>Sensor_t\<close>. The field \<open>proxTable\<close> holds the array that the pointer of the struct points
  to, which nothing in this module writes. The two histories are arrays of
  \<^verbatim>\<open>SENSOR_HIST_LEN\<close> elements.
\<close>

record Sensor =
  index :: u8
  sampleCount :: u32
  proxTable :: "u16 list"
  psHist :: "u16 list"
  alsHist :: "u16 list"
  psMean :: u16
  psSTD :: double
  alsMean :: u16
  alsSTD :: double
  estimatedDistance :: double
  psProxMin :: u16
  psProxMax :: u16
  inProximity :: u8
  isBlocked :: u8
  psWindowSum :: u32
  alsWindowSum :: u32

definition Reset_Sensor :: "Sensor \<Rightarrow> Sensor" where
  "Reset_Sensor sensor =
     sensor\<lparr>sampleCount := 0, psMean := 0, psSTD := Num 0, alsMean := 0, alsSTD := Num 0,
       inProximity := 0, isBlocked := 0, psWindowSum := 0, alsWindowSum := 0,
       psHist := replicate SENSOR_HIST_LEN 0, alsHist := replicate SENSOR_HIST_LEN 0\<rparr>"

text \<open>The first argument is the memory of the struct as the caller hands it over.\<close>

definition Init_Sensor :: "Sensor \<Rightarrow> u8 \<Rightarrow> u16 \<Rightarrow> u16 \<Rightarrow> u16 list \<Rightarrow> Sensor" where
  "Init_Sensor sensor ix pMin pMax table =
     Reset_Sensor (sensor\<lparr>index := ix, psProxMin := pMin, psProxMax := pMax, proxTable := table\<rparr>)"

text \<open>
  The loop that sums the squared errors over the window, from the value \<open>i\<close> of its
  counter on; it returns the counter and the sum it ends with. The source has this loop
  twice, over \<open>psHist\<close> with the bound \<^verbatim>\<open>PS_WINDOW\<close> and over \<open>alsHist\<close> with
  \<^verbatim>\<open>ALS_WINDOW\<close>, both 25.
\<close>

function STD_loop :: "u16 list \<Rightarrow> u32 \<Rightarrow> double \<Rightarrow> u16 \<Rightarrow> double \<Rightarrow> (u16 \<times> double) option" where
  "STD_loop hist sc meanDouble i errorSum =
    (if unat i < PS_WINDOW then
       if sint sc - uint i \<ge> 0 then
         do {
           let windowInd = (word_of_int ((sint sc - uint i) mod int SENSOR_HIST_LEN) :: u16);
           h \<leftarrow> elem hist (uint windowInd);
           STD_loop hist sc meanDouble (i + 1) (dadd errorSum (dpow2 (dsub (to_double h) meanDouble)))
         }
       else Some (i, errorSum)
     else Some (i, errorSum))"
  by pat_completeness auto

termination
proof (relation "measure (\<lambda>(hist, sc, meanDouble, i, errorSum). PS_WINDOW - unat i)")
  show "wf (measure (\<lambda>(hist, sc, meanDouble, i, errorSum). PS_WINDOW - unat i))"
    by simp
next
  fix hist :: "u16 list" and sc :: u32 and meanDouble errorSum :: double and i x :: u16 and h :: u16
  assume lt: "unat i < PS_WINDOW"
  then have "unat (i + 1) = unat i + 1"
    using unat_add_lem [of i 1] by simp
  with lt show "((hist, sc, meanDouble, i + 1, dadd errorSum (dpow2 (dsub (to_double h) meanDouble))),
      hist, sc, meanDouble, i, errorSum) \<in> measure (\<lambda>(hist, sc, meanDouble, i, errorSum). PS_WINDOW - unat i)"
    by simp
qed

declare STD_loop.simps [simp del]

text \<open>
  \<^verbatim>\<open>Update_Sensor\<close> works on the struct in place, one commented block of statements after
  the other. Each block is a function from the struct before it to the struct after it;
  the two blocks that compute a mean also return the local \<^verbatim>\<open>meanDouble\<close>.
\<close>

text \<open>\<^verbatim>\<open>// Update PS rolling window sum\<close>\<close>

definition Update_PS_Window_Sum :: "Sensor \<Rightarrow> u16 \<Rightarrow> Sensor option" where
  "Update_PS_Window_Sum sensor psVal =
    (if sampleCount sensor < of_nat PS_WINDOW then
       Some (sensor\<lparr>psWindowSum := psWindowSum sensor + ucast psVal\<rparr>)
     else
       do {
         let windowInd = (ucast ((sampleCount sensor - of_nat PS_WINDOW) mod of_nat SENSOR_HIST_LEN) :: u16);
         h \<leftarrow> elem (psHist sensor) (uint windowInd);
         Some (sensor\<lparr>psWindowSum := psWindowSum sensor - ucast h + ucast psVal\<rparr>)
       })"

text \<open>\<^verbatim>\<open>// Update ALS rolling window sum\<close>, where the difference is taken in \<^verbatim>\<open>int\<close>.\<close>

definition Update_ALS_Window_Sum :: "Sensor \<Rightarrow> u16 \<Rightarrow> Sensor option" where
  "Update_ALS_Window_Sum sensor alsVal =
    (if sampleCount sensor < of_nat ALS_WINDOW then
       Some (sensor\<lparr>alsWindowSum := alsWindowSum sensor + ucast alsVal\<rparr>)
     else
       do {
         let windowInd = (ucast ((sampleCount sensor - of_nat ALS_WINDOW) mod of_nat SENSOR_HIST_LEN) :: u16);
         h \<leftarrow> elem (alsHist sensor) (uint windowInd);
         Some (sensor\<lparr>alsWindowSum := alsWindowSum sensor + word_of_int (uint alsVal - uint h)\<rparr>)
       })"

text \<open>\<^verbatim>\<open>// Circular buffer for history\<close>\<close>

definition Store_History :: "Sensor \<Rightarrow> u16 \<Rightarrow> u16 \<Rightarrow> Sensor option" where
  "Store_History sensor psVal alsVal =
    do {
      let ind = (ucast (sampleCount sensor mod of_nat SENSOR_HIST_LEN) :: u16);
      psH \<leftarrow> store (psHist sensor) (uint ind) psVal;
      alsH \<leftarrow> store (alsHist sensor) (uint ind) alsVal;
      Some (sensor\<lparr>psHist := psH, alsHist := alsH\<rparr>)
    }"

text \<open>\<^verbatim>\<open>// Calculate PS Mean from window sum\<close>\<close>

definition PS_Mean :: "Sensor \<Rightarrow> (Sensor \<times> double) option" where
  "PS_Mean sensor =
    do {
      let meanDouble =
        (if sampleCount sensor + 1 \<ge> of_nat PS_WINDOW
         then ddiv (to_double (psWindowSum sensor)) (real PS_WINDOW)
         else ddiv (to_double (psWindowSum sensor)) (real (unat (sampleCount sensor + 1))));
      m \<leftarrow> to_uint16 (dfloor meanDouble);
      Some (sensor\<lparr>psMean := m\<rparr>, meanDouble)
    }"

text \<open>\<^verbatim>\<open>// Get estimated distance from PS mean\<close>\<close>

definition Estimate_Distance :: "Sensor \<Rightarrow> Sensor option" where
  "Estimate_Distance sensor =
    do {
      d \<leftarrow> Distance_Lookup (psMean sensor) (proxTable sensor) distanceTable (of_nat DIST_LOOKUP_LEN);
      Some (sensor\<lparr>estimatedDistance := d\<rparr>)
    }"

text \<open>\<^verbatim>\<open>// Calculate PS STD\<close>\<close>

definition PS_STD :: "Sensor \<Rightarrow> double \<Rightarrow> Sensor option" where
  "PS_STD sensor meanDouble =
    do {
      (i, errorSum) \<leftarrow> STD_loop (psHist sensor) (sampleCount sensor) meanDouble 0 (Num 0);
      Some (sensor\<lparr>psSTD := dsqrt (ddiv errorSum (real (unat i)))\<rparr>)
    }"

text \<open>\<^verbatim>\<open>// Calculate ALS mean from window\<close>\<close>

definition ALS_Mean :: "Sensor \<Rightarrow> (Sensor \<times> double) option" where
  "ALS_Mean sensor =
    do {
      let meanDouble =
        (if sampleCount sensor \<ge> of_nat ALS_WINDOW - 1
         then ddiv (to_double (alsWindowSum sensor)) (real ALS_WINDOW)
         else ddiv (to_double (alsWindowSum sensor)) (real (unat (sampleCount sensor + 1))));
      m \<leftarrow> to_uint16 (dfloor meanDouble);
      Some (sensor\<lparr>alsMean := m\<rparr>, meanDouble)
    }"

text \<open>\<^verbatim>\<open>// Calculate ALS STD\<close>\<close>

definition ALS_STD :: "Sensor \<Rightarrow> double \<Rightarrow> Sensor option" where
  "ALS_STD sensor meanDouble =
    do {
      (i, errorSum) \<leftarrow> STD_loop (alsHist sensor) (sampleCount sensor) meanDouble 0 (Num 0);
      Some (sensor\<lparr>alsSTD := dsqrt (ddiv errorSum (real (unat i)))\<rparr>)
    }"

text \<open>\<^verbatim>\<open>// Update inProximity flag\<close>\<close>

definition Update_inProximity :: "Sensor \<Rightarrow> u16 \<Rightarrow> Sensor" where
  "Update_inProximity sensor psVal =
    (if inProximity sensor \<noteq> 0 \<and> psVal \<le> psProxMin sensor then sensor\<lparr>inProximity := 0\<rparr>
     else if inProximity sensor = 0 \<and> psVal \<ge> psProxMax sensor then sensor\<lparr>inProximity := 1\<rparr>
     else sensor)"

text \<open>\<^verbatim>\<open>// Update isBlocked flag\<close>\<close>

definition Update_isBlocked :: "Sensor \<Rightarrow> Sensor" where
  "Update_isBlocked sensor =
    (if isBlocked sensor = 0 \<and> inProximity sensor \<noteq> 0 \<and> alsMean sensor = 0 \<and> alsSTD sensor = Num 0
     then sensor\<lparr>isBlocked := 1\<rparr>
     else if isBlocked sensor \<noteq> 0 \<and> inProximity sensor = 0 then sensor\<lparr>isBlocked := 0\<rparr>
     else sensor)"

definition Update_Sensor :: "Sensor \<Rightarrow> u16 \<Rightarrow> u16 \<Rightarrow> Sensor option" where
  "Update_Sensor sensor psVal alsVal =
    do {
      s1 \<leftarrow> Update_PS_Window_Sum sensor psVal;
      s2 \<leftarrow> Update_ALS_Window_Sum s1 alsVal;
      s3 \<leftarrow> Store_History s2 psVal alsVal;
      (s4, psMeanDouble) \<leftarrow> PS_Mean s3;
      s5 \<leftarrow> Estimate_Distance s4;
      s6 \<leftarrow> PS_STD s5 psMeanDouble;
      (s7, alsMeanDouble) \<leftarrow> ALS_Mean s6;
      s8 \<leftarrow> ALS_STD s7 alsMeanDouble;
      let s9 = Update_inProximity s8 psVal;
      let s10 = Update_isBlocked s9;
      Some (s10\<lparr>sampleCount := sampleCount s10 + 1\<rparr>)
    }"

text \<open>The caller's loop: one \<^verbatim>\<open>Update_Sensor\<close> call for each sample pair, in order.\<close>

fun Update_all :: "Sensor \<Rightarrow> (u16 \<times> u16) list \<Rightarrow> Sensor option" where
  "Update_all sensor [] = Some sensor"
| "Update_all sensor ((psVal, alsVal) # samples) =
     do { sensor' \<leftarrow> Update_Sensor sensor psVal alsVal; Update_all sensor' samples }"

text \<open>
  A test's loop: the calls as in \<open>Update_all\<close>, with the flag \<open>inProximity\<close> read after each
  call.
\<close>

fun inProximity_trace :: "Sensor \<Rightarrow> (u16 \<times> u16) list \<Rightarrow> bool list option" where
  "inProximity_trace sensor [] = Some []"
| "inProximity_trace sensor ((psVal, alsVal) # samples) =
     do {
       sensor' \<leftarrow> Update_Sensor sensor psVal alsVal;
       flags \<leftarrow> inProximity_trace sensor' samples;
       Some ((inProximity sensor' \<noteq> 0) # flags)
     }"

text \<open>The sample pairs that remain in a window of \<open>w\<close> samples: the last \<open>min (length xs) w\<close>.\<close>

definition last_samples :: "nat \<Rightarrow> 'a list \<Rightarrow> 'a list" where
  "last_samples w xs = drop (length xs - w) xs"

text \<open>
  What a sensor holds after the sample pairs \<open>xs\<close> were fed to a reset sensor: the count of
  the samples, the last 50 of them in the slots of the two histories, and the sums of the
  last 25 of each channel.
\<close>

definition Sensor_inv :: "(u16 \<times> u16) list \<Rightarrow> Sensor \<Rightarrow> bool" where
  "Sensor_inv xs s \<longleftrightarrow>
     length xs < 2 ^ 32 \<and> sampleCount s = of_nat (length xs)
     \<and> length (psHist s) = SENSOR_HIST_LEN \<and> length (alsHist s) = SENSOR_HIST_LEN
     \<and> (\<forall>k<length xs. length xs \<le> k + SENSOR_HIST_LEN \<longrightarrow>
           psHist s ! (k mod SENSOR_HIST_LEN) = fst (xs ! k)
           \<and> alsHist s ! (k mod SENSOR_HIST_LEN) = snd (xs ! k))
     \<and> unat (psWindowSum s) = sum_list (map (unat \<circ> fst) (last_samples PS_WINDOW xs))
     \<and> unat (alsWindowSum s) = sum_list (map (unat \<circ> snd) (last_samples ALS_WINDOW xs))"

text \<open>
  The mean and the standard deviation of a window of samples as the specification words
  them, in exact arithmetic: the sum over the count, and the square root of the mean
  squared deviation from that (untruncated) mean.
\<close>

definition window_mean :: "u16 list \<Rightarrow> real" where
  "window_mean vs = real (sum_list (map unat vs)) / real (length vs)"

definition window_std :: "u16 list \<Rightarrow> real" where
  "window_std vs =
     sqrt (sum_list (map (\<lambda>v. (real (unat v) - window_mean vs)\<^sup>2) vs) / real (length vs))"

section \<open>Example inputs\<close>

text \<open>
  A calibration table of \<^verbatim>\<open>DIST_LOOKUP_LEN\<close> descending thresholds, a struct with arbitrary
  contents as \<^verbatim>\<open>Init_Sensor\<close> may find it, the sensor initialised from it with the exit
  threshold 5 and the enter threshold 10, and that sensor after the sample pair (12, 0).
\<close>

definition example_table :: "u16 list" where
  "example_table =
     [1500, 1400, 1300, 1200, 1100, 1000, 900, 800, 700, 600, 500, 400, 300, 200, 100, 0]"

definition example_memory :: Sensor where
  "example_memory =
     \<lparr>index = 9, sampleCount = 7, proxTable = [], psHist = [], alsHist = [], psMean = 3,
      psSTD = NaN_or_Inf, alsMean = 9, alsSTD = Num 2, estimatedDistance = Num 5, psProxMin = 0,
      psProxMax = 0, inProximity = 1, isBlocked = 1, psWindowSum = 77, alsWindowSum = 88\<rparr>"

definition example_sensor :: Sensor where
  "example_sensor = Init_Sensor example_memory 0 5 10 example_table"

definition example_near :: Sensor where
  "example_near =
     \<lparr>index = 0, sampleCount = 1, proxTable = example_table,
      psHist = (replicate SENSOR_HIST_LEN 0)[0 := 12], alsHist = (replicate SENSOR_HIST_LEN 0)[0 := 0],
      psMean = 12, psSTD = Num 0, alsMean = 0, alsSTD = Num 0, estimatedDistance = Num (744 / 25),
      psProxMin = 5, psProxMax = 10, inProximity = 1, isBlocked = 1, psWindowSum = 12,
      alsWindowSum = 0\<rparr>"

text \<open>
  The sample pairs of the end-to-end test of the specification: the proximity values
  0, 0, 0, 12, 12, 12, 4, 4, 4, each with the ambient value 50.
\<close>

definition proximity_samples :: "(u16 \<times> u16) list" where
  "proximity_samples =
     [(0, 50), (0, 50), (0, 50), (12, 50), (12, 50), (12, 50), (4, 50), (4, 50), (4, 50)]"

text \<open>Thirty sample pairs, more than a window holds.\<close>

definition ramp :: "(u16 \<times> u16) list" where
  "ramp = map (\<lambda>i. (of_nat i, of_nat (2 * i))) [0..<30]"

section \<open>Words and array accesses\<close>

lemma uint_less_length: "uint (w :: 'a::len word) < int n \<longleftrightarrow> unat w < n"
  by (metis nat_uint_eq uint_ge_0 nat_less_iff)

lemma uint_pos: "(w :: 'a::len word) \<noteq> 0 \<Longrightarrow> 0 < uint w"
  by (metis uint_0_iff uint_ge_0 order_le_less)

lemma nat_uint_pred: "(w :: 'a::len word) \<noteq> 0 \<Longrightarrow> nat (uint w - 1) = unat w - 1"
  by (metis nat_uint_eq nat_diff_distrib nat_one_as_int zero_le_one uint_pos int_one_le_iff_zero_less)

lemma unat_succ_less:
  fixes i n :: "'a::len word"
  assumes "i < n"
  shows "unat (i + 1) = unat i + 1"
  using assms by unat_arith

lemma elem_uint:
  "elem a (uint w) = (if unat w < length a then Some (a ! unat w) else None)"
  by (simp add: elem_def uint_less_length)

lemma elem_uint_pred:
  assumes "w \<noteq> 0"
  shows "elem a (uint w - 1) = (if unat w \<le> length a then Some (a ! (unat w - 1)) else None)"
proof -
  from assms have pos: "0 < uint w" by (rule uint_pos)
  from assms have "unat w \<noteq> 0" by (simp add: unat_eq_zero)
  have "uint w - 1 < int (length a) \<longleftrightarrow> uint w < int (Suc (length a))"
    by auto
  also have "\<dots> \<longleftrightarrow> unat w \<le> length a"
    unfolding uint_less_length by arith
  finally show ?thesis
    using pos nat_uint_pred [OF assms] by (simp add: elem_def)
qed

section \<open>The loop of \<^verbatim>\<open>Distance_Lookup\<close>\<close>

lemma Distance_Lookup_from_end:
  "\<not> i < tableLen \<Longrightarrow> Distance_Lookup_from i psVal pt dt tableLen =
     do { d \<leftarrow> elem dt (uint tableLen - 1); Some (to_double d) }"
  by (subst Distance_Lookup_from.simps) (simp only: if_False)

lemma Distance_Lookup_from_step:
  "i < tableLen \<Longrightarrow> Distance_Lookup_from i psVal pt dt tableLen =
     do {
       p \<leftarrow> elem pt (uint i);
       if psVal \<ge> p then
         if i = 0 then
           do { d \<leftarrow> elem dt (uint i); Some (to_double d) }
         else
           do {
             d1 \<leftarrow> elem dt (uint i - 1);
             p1 \<leftarrow> elem pt (uint i - 1);
             d \<leftarrow> elem dt (uint i);
             Some (dadd (to_double d1)
               (ddiv (Num ((real (unat psVal) - real (unat p1)) * (real (unat d) - real (unat d1))))
                 (real (unat p) - real (unat p1))))
           }
       else Distance_Lookup_from (i + 1) psVal pt dt tableLen
     }"
  by (subst Distance_Lookup_from.simps) (simp only: if_True)

lemma Distance_Lookup_from_defined:
  assumes "1 \<le> unat tableLen" "unat tableLen \<le> length pt" "unat tableLen \<le> length dt"
    and "unat i \<le> unat tableLen"
  shows "Distance_Lookup_from i psVal pt dt tableLen \<noteq> None"
  using assms(4)
proof (induction "unat tableLen - unat i" arbitrary: i)
  case 0
  then have "\<not> i < tableLen" by (simp add: word_less_nat_alt)
  moreover from assms have "tableLen \<noteq> 0" "unat tableLen \<le> length dt" by auto
  ultimately show ?case
    by (simp add: Distance_Lookup_from_end elem_uint_pred)
next
  case (Suc d)
  then have lt: "i < tableLen" by (simp add: word_less_nat_alt)
  then have ui: "unat i < unat tableLen" by (simp add: word_less_nat_alt)
  have step: "unat (i + 1) = unat i + 1" using lt by (rule unat_succ_less)
  have rec: "Distance_Lookup_from (i + 1) psVal pt dt tableLen \<noteq> None"
    using Suc.hyps(2) ui by (intro Suc.hyps(1)) (simp_all add: step)
  from ui assms have len: "unat i < length pt" "unat i < length dt" by simp_all
  show ?case
  proof (cases "i = 0")
    case True
    with rec len show ?thesis
      unfolding Distance_Lookup_from_step [OF lt] by (auto simp: elem_def)
  next
    case False
    with rec len show ?thesis
      unfolding Distance_Lookup_from_step [OF lt] by (auto simp: elem_uint elem_uint_pred)
  qed
qed

lemma Distance_Lookup_from_skip:
  assumes "unat i \<le> k" "k \<le> unat tableLen" "unat tableLen \<le> length pt"
    and "\<And>j. unat i \<le> j \<Longrightarrow> j < k \<Longrightarrow> psVal < pt ! j"
  shows "Distance_Lookup_from i psVal pt dt tableLen = Distance_Lookup_from (of_nat k) psVal pt dt tableLen"
  using assms(1,4)
proof (induction "k - unat i" arbitrary: i)
  case 0
  then have "unat i = k" by simp
  moreover have "of_nat (unat i) = i" by simp
  ultimately have "of_nat k = i" by simp
  then show ?case by simp
next
  case (Suc d)
  then have ui: "unat i < k" by simp
  with assms(2) have lt: "i < tableLen" by (simp add: word_less_nat_alt)
  have step: "unat (i + 1) = unat i + 1" using lt by (rule unat_succ_less)
  have rec: "Distance_Lookup_from (i + 1) psVal pt dt tableLen = Distance_Lookup_from (of_nat k) psVal pt dt tableLen"
    using Suc.hyps(2) ui Suc.prems(2) by (intro Suc.hyps(1)) (simp_all add: step)
  from ui assms have len: "unat i < length pt" by simp
  from Suc.prems(2) [of "unat i"] ui have "\<not> pt ! unat i \<le> psVal" by simp
  with len show ?case
    unfolding Distance_Lookup_from_step [OF lt] rec by (simp add: elem_uint)
qed

lemma unat_of_nat_u8: "k \<le> unat (n :: u8) \<Longrightarrow> unat (of_nat k :: u8) = k"
proof -
  assume "k \<le> unat n"
  moreover have "unat n < 2 ^ 8" using unsigned_less [of n, where ?'a = nat] by simp
  ultimately have "k < 2 ^ 8" by simp
  then show ?thesis by (simp add: unat_of_nat)
qed

lemma Distance_Lookup_first:
  assumes "1 \<le> unat tableLen" "unat tableLen \<le> length pt" "unat tableLen \<le> length dt"
    and "pt ! 0 \<le> psVal"
  shows "Distance_Lookup psVal pt dt tableLen = Some (Num (real (unat (dt ! 0))))"
proof -
  from assms(1) have lt: "0 < tableLen" by (simp add: word_less_nat_alt)
  from assms have "0 < length pt" "0 < length dt" by linarith+
  with assms(4) show ?thesis
    unfolding Distance_Lookup_def Distance_Lookup_from_step [OF lt]
    by (simp add: elem_def to_double_def)
qed

lemma Distance_Lookup_interpolate:
  assumes "unat tableLen \<le> length pt" "unat tableLen \<le> length dt"
    and "0 < i" "i < unat tableLen" "pt ! i \<le> psVal" "\<And>j. j < i \<Longrightarrow> psVal < pt ! j"
  shows "Distance_Lookup psVal pt dt tableLen =
    Some (Num (real (unat (dt ! (i - 1))) +
      (real (unat psVal) - real (unat (pt ! (i - 1)))) * (real (unat (dt ! i)) - real (unat (dt ! (i - 1))))
        / (real (unat (pt ! i)) - real (unat (pt ! (i - 1))))))"
proof -
  let ?w = "of_nat i :: u8"
  have uw: "unat ?w = i" using assms(4) by (intro unat_of_nat_u8 [of _ tableLen]) simp
  with assms(3,4) have lt: "?w < tableLen" and nz: "?w \<noteq> 0"
    by (simp_all add: word_less_nat_alt unat_eq_zero [symmetric])
  have "Distance_Lookup psVal pt dt tableLen = Distance_Lookup_from ?w psVal pt dt tableLen"
    unfolding Distance_Lookup_def using assms by (intro Distance_Lookup_from_skip) simp_all
  moreover from assms(6) [of "i - 1"] assms(3,5) have "unat (pt ! i) \<noteq> unat (pt ! (i - 1))"
    by (auto simp: word_less_nat_alt word_le_nat_alt)
  ultimately show ?thesis
    using assms(1-5) unfolding Distance_Lookup_from_step [OF lt]
    by (simp add: elem_uint elem_uint_pred nz uw to_double_def del: of_nat_unat)
qed

lemma Distance_Lookup_fallback:
  assumes "1 \<le> unat tableLen" "unat tableLen \<le> length pt" "unat tableLen \<le> length dt"
    and "\<And>j. j < unat tableLen \<Longrightarrow> psVal < pt ! j"
  shows "Distance_Lookup psVal pt dt tableLen = Some (Num (real (unat (dt ! (unat tableLen - 1)))))"
proof -
  have "Distance_Lookup psVal pt dt tableLen = Distance_Lookup_from (of_nat (unat tableLen)) psVal pt dt tableLen"
    unfolding Distance_Lookup_def using assms by (intro Distance_Lookup_from_skip) simp_all
  moreover have "\<not> tableLen < tableLen" by simp
  moreover from assms(1) have "tableLen \<noteq> 0" by auto
  ultimately show ?thesis
    using assms(3) by (simp add: Distance_Lookup_from_end elem_uint_pred to_double_def)
qed

lemma Distance_Lookup_zero_length: "Distance_Lookup psVal pt dt 0 = None"
  by (simp add: Distance_Lookup_def Distance_Lookup_from_end elem_def)

lemma elem_take: "j < int n \<Longrightarrow> elem (take n a) j = elem a j"
  by (auto simp: elem_def)

lemma Distance_Lookup_from_take:
  "Distance_Lookup_from i psVal (take (unat tableLen) pt) (take (unat tableLen) dt) tableLen
     = Distance_Lookup_from i psVal pt dt tableLen"
proof (induction "unat tableLen - unat i" arbitrary: i)
  case 0
  then have stop: "\<not> i < tableLen" by (simp add: word_less_nat_alt)
  have "uint tableLen < int (Suc (unat tableLen))"
    unfolding uint_less_length by simp
  then have "uint tableLen - 1 < int (unat tableLen)"
    by linarith
  then show ?case
    unfolding Distance_Lookup_from_end [OF stop] by (simp only: elem_take)
next
  case (Suc d)
  then have lt: "i < tableLen" by (simp add: word_less_nat_alt)
  then have ui: "unat i < unat tableLen" by (simp add: word_less_nat_alt)
  have step: "unat (i + 1) = unat i + 1" using lt by (rule unat_succ_less)
  have rec: "Distance_Lookup_from (i + 1) psVal (take (unat tableLen) pt) (take (unat tableLen) dt) tableLen
      = Distance_Lookup_from (i + 1) psVal pt dt tableLen"
    using Suc.hyps(2) ui by (intro Suc.hyps(1)) (simp add: step)
  have a: "uint i < int (unat tableLen)"
    unfolding uint_less_length by (rule ui)
  then have b: "uint i - 1 < int (unat tableLen)"
    by linarith
  from a b show ?case
    unfolding Distance_Lookup_from_step [OF lt] by (simp only: elem_take rec)
qed

section \<open>The blocks of \<^verbatim>\<open>Update_Sensor\<close>\<close>

lemma sampleCount_Update_flags [simp]:
  "sampleCount (Update_inProximity s p) = sampleCount s"
  "sampleCount (Update_isBlocked s) = sampleCount s"
  by (simp_all add: Update_inProximity_def Update_isBlocked_def)

lemma Update_Sensor_SomeE:
  assumes "Update_Sensor s p a = Some s'"
  obtains s1 s2 s3 s4 m s5 s6 s7 m' s8 where
    "Update_PS_Window_Sum s p = Some s1"
    "Update_ALS_Window_Sum s1 a = Some s2"
    "Store_History s2 p a = Some s3"
    "PS_Mean s3 = Some (s4, m)"
    "Estimate_Distance s4 = Some s5"
    "PS_STD s5 m = Some s6"
    "ALS_Mean s6 = Some (s7, m')"
    "ALS_STD s7 m' = Some s8"
    "s' = (Update_isBlocked (Update_inProximity s8 p))\<lparr>sampleCount := sampleCount s8 + 1\<rparr>"
  using assms unfolding Update_Sensor_def
  by (auto simp: bind_eq_Some_conv Let_def)

lemma Update_PS_Window_Sum_Some:
  "Update_PS_Window_Sum s p = Some s' \<Longrightarrow> \<exists>v. s' = s\<lparr>psWindowSum := v\<rparr>"
  by (auto simp: Update_PS_Window_Sum_def Let_def bind_eq_Some_conv split: if_splits)

lemma Update_ALS_Window_Sum_Some:
  "Update_ALS_Window_Sum s p = Some s' \<Longrightarrow> \<exists>v. s' = s\<lparr>alsWindowSum := v\<rparr>"
  by (auto simp: Update_ALS_Window_Sum_def Let_def bind_eq_Some_conv split: if_splits)

lemma Store_History_Some:
  "Store_History s p a = Some s' \<Longrightarrow> \<exists>v w. s' = s\<lparr>psHist := v, alsHist := w\<rparr>"
  by (auto simp: Store_History_def Let_def bind_eq_Some_conv split: if_splits)

lemma PS_Mean_Some:
  "PS_Mean s = Some (s', m) \<Longrightarrow> \<exists>v. s' = s\<lparr>psMean := v\<rparr>"
  by (auto simp: PS_Mean_def Let_def bind_eq_Some_conv split: if_splits)

lemma ALS_Mean_Some:
  "ALS_Mean s = Some (s', m) \<Longrightarrow> \<exists>v. s' = s\<lparr>alsMean := v\<rparr>"
  by (auto simp: ALS_Mean_def Let_def bind_eq_Some_conv split: if_splits)

lemma Estimate_Distance_Some:
  "Estimate_Distance s = Some s' \<Longrightarrow> \<exists>v. s' = s\<lparr>estimatedDistance := v\<rparr>"
  by (auto simp: Estimate_Distance_def Let_def bind_eq_Some_conv split: if_splits)

lemma PS_STD_Some:
  "PS_STD s m = Some s' \<Longrightarrow> \<exists>v. s' = s\<lparr>psSTD := v\<rparr>"
  by (auto simp: PS_STD_def Let_def bind_eq_Some_conv split: if_splits)

lemma ALS_STD_Some:
  "ALS_STD s m = Some s' \<Longrightarrow> \<exists>v. s' = s\<lparr>alsSTD := v\<rparr>"
  by (auto simp: ALS_STD_def Let_def bind_eq_Some_conv split: if_splits)

lemma Update_Sensor_pre_flags:
  assumes "Update_Sensor s p a = Some s'"
  obtains s8 where
    "s' = (Update_isBlocked (Update_inProximity s8 p))\<lparr>sampleCount := sampleCount s + 1\<rparr>"
    "inProximity s8 = inProximity s" "isBlocked s8 = isBlocked s"
    "psProxMin s8 = psProxMin s" "psProxMax s8 = psProxMax s"
    "index s8 = index s" "proxTable s8 = proxTable s"
proof -
  from assms obtain s1 s2 s3 s4 m s5 s6 s7 m' s8 where st:
    "Update_PS_Window_Sum s p = Some s1"
    "Update_ALS_Window_Sum s1 a = Some s2"
    "Store_History s2 p a = Some s3"
    "PS_Mean s3 = Some (s4, m)"
    "Estimate_Distance s4 = Some s5"
    "PS_STD s5 m = Some s6"
    "ALS_Mean s6 = Some (s7, m')"
    "ALS_STD s7 m' = Some s8"
    "s' = (Update_isBlocked (Update_inProximity s8 p))\<lparr>sampleCount := sampleCount s8 + 1\<rparr>"
    by (rule Update_Sensor_SomeE)
  from st(1-8) obtain v1 v2 v3 w3 v4 v5 v6 v7 v8 where
    "s8 = s\<lparr>psWindowSum := v1, alsWindowSum := v2, psHist := v3, alsHist := w3, psMean := v4,
       estimatedDistance := v5, psSTD := v6, alsMean := v7, alsSTD := v8\<rparr>"
    by (auto dest!: Update_PS_Window_Sum_Some Update_ALS_Window_Sum_Some Store_History_Some PS_Mean_Some
        Estimate_Distance_Some PS_STD_Some ALS_Mean_Some ALS_STD_Some)
  with st(9) show thesis
    by (intro that [of s8]) simp_all
qed

section \<open>Evaluation on the example inputs\<close>

lemmas Update_Sensor_eval =
  Update_Sensor_def Update_PS_Window_Sum_def Update_ALS_Window_Sum_def Store_History_def
  PS_Mean_def Estimate_Distance_def PS_STD_def ALS_Mean_def ALS_STD_def Update_inProximity_def
  Update_isBlocked_def Distance_Lookup_def Distance_Lookup_from.simps STD_loop.simps elem_def
  store_def to_double_def distanceTable_def Let_def word_le_nat_alt word_less_nat_alt

lemma example_sensor_eq:
  "example_sensor =
     \<lparr>index = 0, sampleCount = 0, proxTable = example_table,
      psHist = replicate SENSOR_HIST_LEN 0, alsHist = replicate SENSOR_HIST_LEN 0,
      psMean = 0, psSTD = Num 0, alsMean = 0, alsSTD = Num 0, estimatedDistance = Num 5,
      psProxMin = 5, psProxMax = 10, inProximity = 0, isBlocked = 0, psWindowSum = 0,
      alsWindowSum = 0\<rparr>"
  by (simp add: example_sensor_def Init_Sensor_def Reset_Sensor_def example_memory_def)

lemma example_near_step: "Update_Sensor example_sensor 12 0 = Some example_near"
  by (simp add: example_sensor_eq example_near_def example_table_def Update_Sensor_eval)

lemma example_near_exit:
  "map_option (\<lambda>s. (inProximity s, isBlocked s)) (Update_Sensor example_near 4 0) = Some (0, 0)"
  by (simp add: example_near_def example_table_def Update_Sensor_eval)

lemma example_near_band:
  "map_option (\<lambda>s. (inProximity s, isBlocked s)) (Update_Sensor example_near 7 0) = Some (1, 1)"
  by (simp add: example_near_def example_table_def Update_Sensor_eval)

lemma example_far_band:
  "map_option (\<lambda>s. (inProximity s, isBlocked s)) (Update_Sensor example_sensor 7 0) = Some (0, 0)"
  by (simp add: example_sensor_eq example_table_def Update_Sensor_eval)

section \<open>Runs and flags\<close>

lemma Update_all_append:
  "Update_all s (xs @ ys) = do { s' \<leftarrow> Update_all s xs; Update_all s' ys }"
  by (induction xs arbitrary: s) (auto split: bind_split)

lemma Update_all_snoc:
  "Update_all s (xs @ [(p, a)]) = do { s' \<leftarrow> Update_all s xs; Update_Sensor s' p a }"
  by (simp add: Update_all_append)

lemma Update_Sensor_flags:
  assumes "Update_Sensor s p a = Some s'"
  shows "inProximity s' = inProximity (Update_inProximity s p)"
    and "inProximity s' = 0 \<Longrightarrow> isBlocked s' = 0"
    and "isBlocked s = 0 \<Longrightarrow> isBlocked s' \<noteq> 0 \<Longrightarrow> inProximity s' \<noteq> 0"
    and "psProxMin s' = psProxMin s" and "psProxMax s' = psProxMax s"
proof -
  from assms obtain s8 where s8:
    "s' = (Update_isBlocked (Update_inProximity s8 p))\<lparr>sampleCount := sampleCount s + 1\<rparr>"
    "inProximity s8 = inProximity s" "isBlocked s8 = isBlocked s"
    "psProxMin s8 = psProxMin s" "psProxMax s8 = psProxMax s"
    by (rule Update_Sensor_pre_flags)
  from s8 show "inProximity s' = inProximity (Update_inProximity s p)"
    by (simp add: Update_isBlocked_def Update_inProximity_def)
  from s8 show "inProximity s' = 0 \<Longrightarrow> isBlocked s' = 0"
    by (simp add: Update_isBlocked_def Update_inProximity_def split: if_splits)
  from s8 show "isBlocked s = 0 \<Longrightarrow> isBlocked s' \<noteq> 0 \<Longrightarrow> inProximity s' \<noteq> 0"
    by (simp add: Update_isBlocked_def Update_inProximity_def split: if_splits)
  from s8 show "psProxMin s' = psProxMin s" "psProxMax s' = psProxMax s"
    by (simp_all add: Update_isBlocked_def Update_inProximity_def)
qed

lemma Update_all_flags:
  "Update_all (Reset_Sensor s0) xs = Some s \<Longrightarrow> inProximity s = 0 \<Longrightarrow> isBlocked s = 0"
proof (induction xs arbitrary: s rule: rev_induct)
  case Nil
  then show ?case by (auto simp: Reset_Sensor_def)
next
  case (snoc x xs)
  obtain p a where x: "x = (p, a)" by (cases x)
  from snoc.prems(1) obtain t where "Update_Sensor t p a = Some s"
    by (auto simp: x Update_all_snoc bind_eq_Some_conv)
  then show ?case using snoc.prems(2) by (rule Update_Sensor_flags(2))
qed

lemma Update_Sensor_estimatedDistance:
  assumes "Update_Sensor s p a = Some s'"
  shows "Distance_Lookup (psMean s') (proxTable s) distanceTable (of_nat DIST_LOOKUP_LEN) = Some (estimatedDistance s')"
proof -
  from assms obtain s1 s2 s3 s4 m s5 s6 s7 m' s8 where st:
    "Update_PS_Window_Sum s p = Some s1"
    "Update_ALS_Window_Sum s1 a = Some s2"
    "Store_History s2 p a = Some s3"
    "PS_Mean s3 = Some (s4, m)"
    "Estimate_Distance s4 = Some s5"
    "PS_STD s5 m = Some s6"
    "ALS_Mean s6 = Some (s7, m')"
    "ALS_STD s7 m' = Some s8"
    "s' = (Update_isBlocked (Update_inProximity s8 p))\<lparr>sampleCount := sampleCount s8 + 1\<rparr>"
    by (rule Update_Sensor_SomeE)
  from st(1-4) obtain v1 v2 v3 w3 v4 where s4: "s4 = s\<lparr>psWindowSum := v1, alsWindowSum := v2, psHist := v3, alsHist := w3, psMean := v4\<rparr>"
    by (auto dest!: Update_PS_Window_Sum_Some Update_ALS_Window_Sum_Some Store_History_Some PS_Mean_Some)
  from st(5) have s5: "Distance_Lookup (psMean s4) (proxTable s4) distanceTable 16 = Some (estimatedDistance s5)"
      "s5 = s4\<lparr>estimatedDistance := estimatedDistance s5\<rparr>"
    by (auto simp: Estimate_Distance_def bind_eq_Some_conv)
  from st(6-8) obtain v6 v7 v8 where s8: "s8 = s5\<lparr>psSTD := v6, alsMean := v7, alsSTD := v8\<rparr>"
    by (auto dest!: PS_STD_Some ALS_Mean_Some ALS_STD_Some)
  have "psMean s' = psMean s4" "estimatedDistance s' = estimatedDistance s5"
    unfolding st(9) s8 by (subst s5(2), simp add: Update_isBlocked_def Update_inProximity_def)+
  with s5(1) show ?thesis by (simp add: s4)
qed

section \<open>Windows of a sample list\<close>

lemma length_last_samples: "length (last_samples w xs) = min w (length xs)"
  by (auto simp: last_samples_def)

lemma last_samples_map: "last_samples w (map f xs) = map f (last_samples w xs)"
  by (simp add: last_samples_def drop_map)

lemma last_samples_replicate: "w \<le> n \<Longrightarrow> last_samples w (replicate n x) = replicate w x"
  by (simp add: last_samples_def)

lemma last_samples_snoc_small:
  "length xs < w \<Longrightarrow> last_samples w (xs @ [x]) = last_samples w xs @ [x]"
  by (simp add: last_samples_def)

lemma last_samples_snoc_big:
  assumes "w \<le> length xs" "0 < w"
  shows "xs ! (length xs - w) # last_samples w (xs @ [x]) = last_samples w xs @ [x]"
proof -
  from assms have lt: "length xs - w < length xs" by simp
  have "last_samples w xs = xs ! (length xs - w) # drop (Suc (length xs - w)) xs"
    unfolding last_samples_def using lt by (rule Cons_nth_drop_Suc [symmetric])
  moreover from assms have "Suc (length xs) - w = Suc (length xs - w)" by simp
  ultimately show ?thesis
    using assms by (simp add: last_samples_def)
qed

lemma sum_last_snoc_small:
  fixes f :: "'a \<Rightarrow> nat"
  shows "length xs < w \<Longrightarrow>
    sum_list (map f (last_samples w (xs @ [x]))) = sum_list (map f (last_samples w xs)) + f x"
  by (simp add: last_samples_snoc_small)

lemma sum_last_snoc_big:
  fixes f :: "'a \<Rightarrow> nat"
  assumes "w \<le> length xs" "0 < w"
  shows "f (xs ! (length xs - w)) + sum_list (map f (last_samples w (xs @ [x])))
    = sum_list (map f (last_samples w xs)) + f x"
proof -
  have "sum_list (map f (xs ! (length xs - w) # last_samples w (xs @ [x])))
      = sum_list (map f (last_samples w xs @ [x]))"
    by (simp only: last_samples_snoc_big [OF assms])
  then show ?thesis by simp
qed

lemma sum_last_bound:
  fixes f :: "'a \<Rightarrow> nat"
  assumes "\<And>x. f x \<le> B"
  shows "sum_list (map f (last_samples w xs)) \<le> min w (length xs) * B"
proof -
  have "sum_list (map f ys) \<le> length ys * B" for ys
    by (induction ys) (simp_all add: assms add_mono)
  from this [of "last_samples w xs"] show ?thesis
    by (simp add: length_last_samples)
qed

lemma sum_last_nth:
  fixes g :: "'a \<Rightarrow> real"
  shows "sum_list (map g (last_samples w l)) = (\<Sum>j<min w (length l). g (l ! (length l - 1 - j)))"
proof -
  let ?k = "min w (length l)" and ?ys = "last_samples w l"
  have len: "length ?ys = ?k" by (rule length_last_samples)
  have "sum_list (map g ?ys) = (\<Sum>i<?k. g (?ys ! i))"
    by (simp add: sum_list_sum_nth len atLeast0LessThan)
  also have "\<dots> = (\<Sum>i<?k. g (?ys ! (?k - Suc i)))"
    by (rule sum.nat_diff_reindex [symmetric])
  also have "\<dots> = (\<Sum>j<?k. g (l ! (length l - 1 - j)))"
  proof (rule sum.cong)
    fix j assume "j \<in> {..<?k}"
    then have j: "j < ?k" by simp
    then have "?ys ! (?k - Suc j) = l ! (length l - w + (?k - Suc j))"
      by (simp add: last_samples_def)
    also from j have "length l - w + (?k - Suc j) = length l - 1 - j"
      by (auto simp: min_def)
    finally show "g (?ys ! (?k - Suc j)) = g (l ! (length l - 1 - j))" by simp
  qed simp
  finally show ?thesis .
qed

lemma mod_50_distinct:
  assumes "k < n" "n < k + 50"
  shows "k mod 50 \<noteq> n mod (50 :: nat)"
proof
  assume "k mod 50 = n mod 50"
  then have "n mod 50 = k mod 50" by simp
  with assms(1) have "50 dvd n - k"
    by (simp add: mod_eq_dvd_iff_nat)
  moreover from assms have "0 < n - k" "n - k < 50" by simp_all
  ultimately show False
    by (auto dest: dvd_imp_le)
qed

section \<open>More on words\<close>

lemma word_of_unat: "unat (w :: 'a::len word) = k \<Longrightarrow> w = of_nat k"
  by auto

lemma unat_hist_index:
  "unat (ucast ((w :: u32) mod 50) :: u16) = unat w mod 50"
proof -
  have "unat (w mod 50) = unat w mod 50"
    by (simp add: unat_mod)
  moreover have "unat w mod 50 < 2 ^ 16"
    by (rule less_trans [of _ 50]) simp_all
  ultimately show ?thesis
    by (simp add: unsigned_ucast_eq take_bit_nat_eq_self)
qed

lemma ucast_sub_int:
  "(w :: u32) + word_of_int (uint (a :: u16) - uint (h :: u16)) = w - ucast h + ucast a"
proof -
  have "(word_of_int (uint a - uint h) :: u32) = word_of_int (uint a) - word_of_int (uint h)"
    by (simp only: wi_hom_sub)
  also have "\<dots> = ucast a - ucast h"
    by (simp only: ucast_eq)
  finally show ?thesis by simp
qed

lemma unat_of_nat_u32: "n < 2 ^ 32 \<Longrightarrow> unat (of_nat n :: u32) = n"
  by (simp add: unat_of_nat)

lemma sint_of_nat_u32:
  assumes "n < 2 ^ 32"
  shows "sint (of_nat n :: u32) = (if n < 2 ^ 31 then int n else int n - 2 ^ 32)"
proof -
  have "uint (of_nat n :: u32) = int n"
    using assms by (simp add: uint_nat unat_of_nat del: of_nat_unat)
  then have "sint (of_nat n :: u32) = signed_take_bit 31 (int n)"
    by (simp add: sint_uint)
  also have "\<dots> = (if n < 2 ^ 31 then int n else int n - 2 ^ 32)"
  proof (cases "n < 2 ^ 31")
    case True
    then show ?thesis
      by (simp add: signed_take_bit_int_eq_self)
  next
    case False
    have "int n + 2 ^ 31 = int n - 2 ^ 31 + 2 ^ 32"
      by simp
    then have "(int n + 2 ^ 31) mod 2 ^ 32 = (int n - 2 ^ 31 + 2 ^ 32) mod 2 ^ 32"
      by (rule arg_cong)
    also have "\<dots> = (int n - 2 ^ 31) mod 2 ^ 32"
      by (rule mod_add_self2)
    also have "\<dots> = int n - 2 ^ 31"
      using False assms by (intro mod_pos_pos_trivial) simp_all
    finally show ?thesis
      using False by (simp add: signed_take_bit_eq_take_bit_shift take_bit_eq_mod)
  qed
  finally show ?thesis .
qed

lemma uint_window_index:
  assumes "0 \<le> k"
  shows "uint (word_of_int (k mod 50) :: u16) = k mod 50"
proof -
  have "0 \<le> k mod 50" "k mod 50 < 50" by simp_all
  then have "k mod 50 < 2 ^ 16" by simp
  with \<open>0 \<le> k mod 50\<close> show ?thesis
    by (simp add: uint_word_of_int take_bit_int_eq_self)
qed

section \<open>What each block of \<^verbatim>\<open>Update_Sensor\<close> computes\<close>

lemma elem_Some_iff:
  "elem a (uint w) = Some v \<longleftrightarrow> unat w < length a \<and> v = a ! unat w"
  by (auto simp: elem_uint)

lemma store_uint:
  "store a (uint w) v = (if unat w < length a then Some (a[unat w := v]) else None)"
  by (simp add: store_def uint_less_length)

lemma Update_PS_Window_Sum_eq:
  "Update_PS_Window_Sum s p = Some s' \<longleftrightarrow>
     (sampleCount s < 25 \<or> unat (sampleCount s - 25) mod 50 < length (psHist s)) \<and>
     s' = s\<lparr>psWindowSum :=
       (if sampleCount s < 25 then psWindowSum s + ucast p
        else psWindowSum s - ucast (psHist s ! (unat (sampleCount s - 25) mod 50)) + ucast p)\<rparr>"
  by (auto simp: Update_PS_Window_Sum_def Let_def bind_eq_Some_conv elem_Some_iff unat_hist_index)

lemma Update_ALS_Window_Sum_eq:
  "Update_ALS_Window_Sum s a = Some s' \<longleftrightarrow>
     (sampleCount s < 25 \<or> unat (sampleCount s - 25) mod 50 < length (alsHist s)) \<and>
     s' = s\<lparr>alsWindowSum :=
       (if sampleCount s < 25 then alsWindowSum s + ucast a
        else alsWindowSum s - ucast (alsHist s ! (unat (sampleCount s - 25) mod 50)) + ucast a)\<rparr>"
  by (auto simp: Update_ALS_Window_Sum_def Let_def bind_eq_Some_conv elem_Some_iff unat_hist_index
      ucast_sub_int)

lemma Store_History_eq:
  "Store_History s p a = Some s' \<longleftrightarrow>
     unat (sampleCount s) mod 50 < length (psHist s) \<and> unat (sampleCount s) mod 50 < length (alsHist s) \<and>
     s' = s\<lparr>psHist := (psHist s)[unat (sampleCount s) mod 50 := p],
            alsHist := (alsHist s)[unat (sampleCount s) mod 50 := a]\<rparr>"
  by (auto simp: Store_History_def Let_def bind_eq_Some_conv store_uint unat_hist_index split: if_splits)

lemma let_bind_pair_eq:
  "(let m = M in f m \<bind> (\<lambda>v. Some (g v, m))) = Some (s', m') \<longleftrightarrow>
     m' = M \<and> (\<exists>v. f m' = Some v \<and> s' = g v)"
  by (auto simp: Let_def bind_eq_Some_conv)

lemma PS_Mean_eq:
  "PS_Mean s = Some (s', m) \<longleftrightarrow>
     m = (if sampleCount s + 1 \<ge> 25 then ddiv (to_double (psWindowSum s)) 25
          else ddiv (to_double (psWindowSum s)) (real (unat (sampleCount s + 1)))) \<and>
     (\<exists>v. to_uint16 (dfloor m) = Some v \<and> s' = s\<lparr>psMean := v\<rparr>)"
  unfolding PS_Mean_def let_bind_pair_eq by simp

lemma ALS_Mean_eq:
  "ALS_Mean s = Some (s', m) \<longleftrightarrow>
     m = (if sampleCount s \<ge> 24 then ddiv (to_double (alsWindowSum s)) 25
          else ddiv (to_double (alsWindowSum s)) (real (unat (sampleCount s + 1)))) \<and>
     (\<exists>v. to_uint16 (dfloor m) = Some v \<and> s' = s\<lparr>alsMean := v\<rparr>)"
  unfolding ALS_Mean_def let_bind_pair_eq by simp

lemma PS_STD_eq:
  "PS_STD s m = Some s' \<longleftrightarrow>
     (\<exists>i e. STD_loop (psHist s) (sampleCount s) m 0 (Num 0) = Some (i, e) \<and>
        s' = s\<lparr>psSTD := dsqrt (ddiv e (real (unat i)))\<rparr>)"
  by (auto simp: PS_STD_def bind_eq_Some_conv)

lemma ALS_STD_eq:
  "ALS_STD s m = Some s' \<longleftrightarrow>
     (\<exists>i e. STD_loop (alsHist s) (sampleCount s) m 0 (Num 0) = Some (i, e) \<and>
        s' = s\<lparr>alsSTD := dsqrt (ddiv e (real (unat i)))\<rparr>)"
  by (auto simp: ALS_STD_def bind_eq_Some_conv)

lemma Estimate_Distance_eq:
  "Estimate_Distance s = Some s' \<longleftrightarrow>
     (\<exists>d. Distance_Lookup (psMean s) (proxTable s) distanceTable 16 = Some d \<and>
        s' = s\<lparr>estimatedDistance := d\<rparr>)"
  by (auto simp: Estimate_Distance_def bind_eq_Some_conv)

lemma Update_flags_frame:
  "\<exists>v w. Update_isBlocked (Update_inProximity s p) = s\<lparr>inProximity := v, isBlocked := w\<rparr>"
proof -
  have "Update_inProximity s p = s\<lparr>inProximity := inProximity (Update_inProximity s p)\<rparr>"
    by (simp add: Update_inProximity_def)
  moreover have "Update_isBlocked t = t\<lparr>isBlocked := isBlocked (Update_isBlocked t)\<rparr>" for t
    by (simp add: Update_isBlocked_def)
  ultimately show ?thesis by metis
qed

lemma Update_Sensor_explicit:
  fixes s :: Sensor and p a :: u16
  defines "sc \<equiv> sampleCount s"
  defines "pss \<equiv> (if sc < 25 then psWindowSum s + ucast p
        else psWindowSum s - ucast (psHist s ! (unat (sc - 25) mod 50)) + ucast p)"
  defines "ass \<equiv> (if sc < 25 then alsWindowSum s + ucast a
        else alsWindowSum s - ucast (alsHist s ! (unat (sc - 25) mod 50)) + ucast a)"
  defines "ph \<equiv> (psHist s)[unat sc mod 50 := p]"
  defines "ah \<equiv> (alsHist s)[unat sc mod 50 := a]"
  defines "pmd \<equiv> (if sc + 1 \<ge> 25 then ddiv (to_double pss) 25
          else ddiv (to_double pss) (real (unat (sc + 1))))"
  defines "amd \<equiv> (if sc \<ge> 24 then ddiv (to_double ass) 25
          else ddiv (to_double ass) (real (unat (sc + 1))))"
  assumes upd: "Update_Sensor s p a = Some s'"
  obtains pm d i e am j f v w where
    "s' = s\<lparr>psWindowSum := pss, alsWindowSum := ass, psHist := ph, alsHist := ah, psMean := pm,
       estimatedDistance := d, psSTD := dsqrt (ddiv e (real (unat i))), alsMean := am,
       alsSTD := dsqrt (ddiv f (real (unat j))), inProximity := v, isBlocked := w,
       sampleCount := sc + 1\<rparr>"
    "sc < 25 \<or> unat (sc - 25) mod 50 < length (psHist s)"
    "sc < 25 \<or> unat (sc - 25) mod 50 < length (alsHist s)"
    "unat sc mod 50 < length (psHist s)" "unat sc mod 50 < length (alsHist s)"
    "to_uint16 (dfloor pmd) = Some pm"
    "Distance_Lookup pm (proxTable s) distanceTable 16 = Some d"
    "STD_loop ph sc pmd 0 (Num 0) = Some (i, e)"
    "to_uint16 (dfloor amd) = Some am"
    "STD_loop ah sc amd 0 (Num 0) = Some (j, f)"
proof -
  from upd obtain s1 s2 s3 s4 m s5 s6 s7 m' s8 where st:
    "Update_PS_Window_Sum s p = Some s1"
    "Update_ALS_Window_Sum s1 a = Some s2"
    "Store_History s2 p a = Some s3"
    "PS_Mean s3 = Some (s4, m)"
    "Estimate_Distance s4 = Some s5"
    "PS_STD s5 m = Some s6"
    "ALS_Mean s6 = Some (s7, m')"
    "ALS_STD s7 m' = Some s8"
    "s' = (Update_isBlocked (Update_inProximity s8 p))\<lparr>sampleCount := sampleCount s8 + 1\<rparr>"
    by (rule Update_Sensor_SomeE)
  from st(1) have s1: "s1 = s\<lparr>psWindowSum := pss\<rparr>"
    and b1: "sc < 25 \<or> unat (sc - 25) mod 50 < length (psHist s)"
    by (simp_all add: Update_PS_Window_Sum_eq pss_def sc_def)
  from st(2) have s2: "s2 = s1\<lparr>alsWindowSum := ass\<rparr>"
    and b2: "sc < 25 \<or> unat (sc - 25) mod 50 < length (alsHist s)"
    by (simp_all add: Update_ALS_Window_Sum_eq ass_def sc_def s1)
  from st(3) have s3: "s3 = s2\<lparr>psHist := ph, alsHist := ah\<rparr>"
    and b3: "unat sc mod 50 < length (psHist s)" "unat sc mod 50 < length (alsHist s)"
    by (simp_all add: Store_History_eq ph_def ah_def sc_def s1 s2)
  from st(4) have m: "m = pmd"
    by (simp add: PS_Mean_eq pmd_def sc_def s1 s2 s3)
  from st(4) obtain pm where pm: "to_uint16 (dfloor m) = Some pm" and s4: "s4 = s3\<lparr>psMean := pm\<rparr>"
    unfolding PS_Mean_eq by blast
  from st(5) obtain d where d: "Distance_Lookup (psMean s4) (proxTable s4) distanceTable 16 = Some d"
    and s5: "s5 = s4\<lparr>estimatedDistance := d\<rparr>"
    unfolding Estimate_Distance_eq by blast
  from st(6) obtain i e where ie: "STD_loop (psHist s5) (sampleCount s5) m 0 (Num 0) = Some (i, e)"
    and s6: "s6 = s5\<lparr>psSTD := dsqrt (ddiv e (real (unat i)))\<rparr>"
    unfolding PS_STD_eq by blast
  from st(7) have m': "m' = amd"
    by (simp add: ALS_Mean_eq amd_def sc_def s1 s2 s3 s4 s5 s6)
  from st(7) obtain am where am: "to_uint16 (dfloor m') = Some am" and s7: "s7 = s6\<lparr>alsMean := am\<rparr>"
    unfolding ALS_Mean_eq by blast
  from st(8) obtain j f where jf: "STD_loop (alsHist s7) (sampleCount s7) m' 0 (Num 0) = Some (j, f)"
    and s8: "s8 = s7\<lparr>alsSTD := dsqrt (ddiv f (real (unat j)))\<rparr>"
    unfolding ALS_STD_eq by blast
  obtain v w where vw: "Update_isBlocked (Update_inProximity s8 p) = s8\<lparr>inProximity := v, isBlocked := w\<rparr>"
    using Update_flags_frame by blast
  have eq: "s' = s\<lparr>psWindowSum := pss, alsWindowSum := ass, psHist := ph, alsHist := ah, psMean := pm,
       estimatedDistance := d, psSTD := dsqrt (ddiv e (real (unat i))), alsMean := am,
       alsSTD := dsqrt (ddiv f (real (unat j))), inProximity := v, isBlocked := w,
       sampleCount := sc + 1\<rparr>"
    unfolding st(9) vw by (simp add: s8 s7 s6 s5 s4 s3 s2 s1 sc_def)
  from pm have c1: "to_uint16 (dfloor pmd) = Some pm" by (simp add: m)
  from d have c2: "Distance_Lookup pm (proxTable s) distanceTable 16 = Some d"
    by (simp add: s4 s3 s2 s1)
  from ie have c3: "STD_loop ph sc pmd 0 (Num 0) = Some (i, e)"
    by (simp add: m s5 s4 s3 s2 s1 sc_def)
  from am have c4: "to_uint16 (dfloor amd) = Some am" by (simp add: m')
  from jf have c5: "STD_loop ah sc amd 0 (Num 0) = Some (j, f)"
    by (simp add: m' s7 s6 s5 s4 s3 s2 s1 sc_def)
  show thesis
    by (rule that [OF eq b1 b2 b3 c1 c2 c3 c4 c5])
qed

section \<open>The conversion of a mean\<close>

lemma to_uint16_of_nat:
  "to_uint16 (Num (real n)) = (if n < 65536 then Some (of_nat n) else None)"
proof -
  have "- 1 < real n" "\<not> real n < 0" by simp_all
  then show ?thesis by simp
qed

lemma to_uint16_floor_div:
  "to_uint16 (dfloor (ddiv (to_double (w :: u32)) (real k))) = Some v \<longleftrightarrow>
     0 < k \<and> unat w div k < 65536 \<and> v = of_nat (unat w div k)"
proof (cases "k = 0")
  case True
  then show ?thesis by (simp add: to_double_def)
next
  case False
  have "\<lfloor>real (unat w) / real k\<rfloor> = int (unat w div k)"
    by (simp only: floor_divide_of_nat_eq)
  then have "dfloor (ddiv (to_double w) (real k)) = Num (real (unat w div k))"
    using False by (simp add: to_double_def del: of_nat_unat)
  then show ?thesis
    using False by (auto simp: to_uint16_of_nat simp del: to_uint16.simps)
qed

section \<open>The loop of the standard deviation\<close>

lemma STD_loop_end:
  "\<not> unat i < 25 \<or> \<not> 0 \<le> sint sc - uint i \<Longrightarrow> STD_loop hist sc m i e = Some (i, e)"
  by (subst STD_loop.simps) auto

lemma STD_loop_step:
  "unat i < 25 \<Longrightarrow> 0 \<le> sint sc - uint i \<Longrightarrow>
     STD_loop hist sc m i e =
       do {
         h \<leftarrow> elem hist (uint (word_of_int ((sint sc - uint i) mod 50) :: u16));
         STD_loop hist sc m (i + 1) (dadd e (dpow2 (dsub (to_double h) m)))
       }"
  by (subst STD_loop.simps) (simp add: Let_def)

lemma unat_succ_u16: "unat (i :: u16) < 25 \<Longrightarrow> unat (i + 1) = unat i + 1"
  using unat_add_lem [of i 1] by simp

lemma STD_loop_defined:
  assumes "length hist = 50"
  shows "STD_loop hist sc m i e \<noteq> None"
proof (induction "25 - unat i" arbitrary: i e)
  case 0
  then have "\<not> unat i < 25" by simp
  then show ?case by (simp add: STD_loop_end)
next
  case (Suc d)
  then have lt: "unat i < 25" by simp
  show ?case
  proof (cases "0 \<le> sint sc - uint i")
    case False
    then show ?thesis by (simp add: STD_loop_end)
  next
    case True
    have "unat (word_of_int ((sint sc - uint i) mod 50) :: u16) < 50"
      using uint_window_index [OF True] 
      by (metis Euclidean_Rings.pos_mod_bound uint_less_length of_nat_numeral zero_less_numeral)
    moreover have "STD_loop hist sc m (i + 1) e' \<noteq> None" for e'
      using Suc.hyps(2) lt by (intro Suc.hyps(1)) (simp add: unat_succ_u16)
    ultimately show ?thesis
      unfolding STD_loop_step [OF lt True] by (simp add: elem_uint assms)
  qed
qed

lemma STD_loop_negative: "sint sc < 0 \<Longrightarrow> STD_loop hist sc m 0 e = Some (0, e)"
  by (simp add: STD_loop_end)

lemma STD_loop_value:
  assumes n: "n < 2 ^ 31" and len: "length hist = 50"
    and K: "K \<le> 25" "K \<le> n + 1" "K = 25 \<or> K = n + 1"
  shows "unat i \<le> K \<Longrightarrow>
    STD_loop hist (of_nat n) (Num \<mu>) i (Num e) =
      Some (of_nat K,
        Num (e + (\<Sum>j = unat i..<K. (real (unat (hist ! ((n - j) mod 50))) - \<mu>)\<^sup>2)))"
proof (induction "K - unat i" arbitrary: i e)
  case 0
  from n have sc: "sint (of_nat n :: u32) = int n"
    by (simp add: sint_of_nat_u32)
  have ui: "uint i = int (unat i)" by simp
  from 0 have eq: "unat i = K" by simp
  have "\<not> unat i < 25 \<or> \<not> 0 \<le> sint (of_nat n :: u32) - uint i"
    unfolding sc ui eq using K(3) by auto
  then have "STD_loop hist (of_nat n) (Num \<mu>) i (Num e) = Some (i, Num e)"
    by (rule STD_loop_end)
  moreover have "of_nat (unat i) = i" by simp
  then have "of_nat K = i" unfolding eq .
  ultimately show ?case by (simp add: eq)
next
  case (Suc d)
  from n have sc: "sint (of_nat n :: u32) = int n"
    by (simp add: sint_of_nat_u32)
  have ui: "uint i = int (unat i)" by simp
  from Suc.hyps(2) have lt: "unat i < K" by simp
  with K have lt25: "unat i < 25" and le: "unat i \<le> n" by simp_all
  have diff: "sint (of_nat n :: u32) - uint i = int (n - unat i)"
    unfolding sc ui using le by simp
  then have nonneg: "0 \<le> sint (of_nat n :: u32) - uint i" by simp
  have "uint (word_of_int (int (n - unat i) mod 50) :: u16) = int (n - unat i) mod 50"
    by (rule uint_window_index) simp
  also have "\<dots> = int ((n - unat i) mod 50)"
    by (simp add: zmod_int)
  finally have "unat (word_of_int (int (n - unat i) mod 50) :: u16) = (n - unat i) mod 50"
    by (metis nat_int nat_uint_eq)
  then have rd: "elem hist (uint (word_of_int ((sint (of_nat n :: u32) - uint i) mod 50) :: u16))
      = Some (hist ! ((n - unat i) mod 50))"
    unfolding diff by (simp add: elem_uint len)
  have step: "unat (i + 1) = unat i + 1" using lt25 by (rule unat_succ_u16)
  have rec: "STD_loop hist (of_nat n) (Num \<mu>) (i + 1) (Num e') =
      Some (of_nat K, Num (e' + (\<Sum>j = unat i + 1..<K. (real (unat (hist ! ((n - j) mod 50))) - \<mu>)\<^sup>2)))" for e'
    using Suc.hyps(2) lt Suc.hyps(1) [of "i + 1" e'] by (simp add: step)
  have split: "(\<Sum>j = unat i..<K. (real (unat (hist ! ((n - j) mod 50))) - \<mu>)\<^sup>2) =
      (real (unat (hist ! ((n - unat i) mod 50))) - \<mu>)\<^sup>2
        + (\<Sum>j = unat i + 1..<K. (real (unat (hist ! ((n - j) mod 50))) - \<mu>)\<^sup>2)"
    using lt by (simp add: sum.atLeast_Suc_lessThan)
  show ?case
    unfolding STD_loop_step [OF lt25 nonneg] rd split
    by (simp add: to_double_def rec del: of_nat_unat)
qed

section \<open>The invariant of a run from a reset sensor\<close>

lemma window_slide:
  fixes w :: u32 and h p :: u16
  assumes "unat h + S' = unat w + unat p" and "S' < 2 ^ 32"
  shows "unat (w - ucast h + ucast p) = S'"
proof -
  have "(of_nat (unat h + S') :: u32) = of_nat (unat w + unat p)"
    by (simp only: assms(1))
  then have "(ucast h :: u32) + of_nat S' = w + ucast p"
    by simp
  then have "w - ucast h + ucast p = (of_nat S' :: u32)"
    by (simp add: algebra_simps)
  with assms(2) show ?thesis
    by (simp add: unat_of_nat_u32)
qed

lemma window_grow:
  fixes w :: u32 and p :: u16
  assumes "S' = unat w + unat p" and "S' < 2 ^ 32"
  shows "unat (w + ucast p) = S'"
  using window_slide [of 0 S' w p] assms by simp

lemma Sensor_inv_reset: "Sensor_inv [] (Reset_Sensor s0)"
  by (simp add: Sensor_inv_def Reset_Sensor_def last_samples_def)

lemma window_sum_bound:
  fixes f :: "'a \<Rightarrow> u16"
  shows "sum_list (map (unat \<circ> f) (last_samples 25 xs)) \<le> min 25 (length xs) * 65535"
proof (rule sum_last_bound)
  fix x
  have "unat (f x) < 2 ^ 16" using unsigned_less [of "f x", where ?'a = nat] by simp
  then show "(unat \<circ> f) x \<le> 65535" by simp
qed

lemma Sensor_inv_new_sum:
  fixes f :: "u16 \<times> u16 \<Rightarrow> u16" and w :: u32
  assumes n: "length xs < 2 ^ 32" and sc: "sc = (of_nat (length xs) :: u32)"
    and len: "length hist = 50"
    and hist: "\<And>k. k < length xs \<Longrightarrow> length xs \<le> k + 50 \<Longrightarrow> hist ! (k mod 50) = f (xs ! k)"
    and sum: "unat w = sum_list (map (unat \<circ> f) (last_samples 25 xs))"
  shows "unat (if sc < 25 then w + ucast (f x) else w - ucast (hist ! (unat (sc - 25) mod 50)) + ucast (f x))
    = sum_list (map (unat \<circ> f) (last_samples 25 (xs @ [x])))"
proof -
  let ?S' = "sum_list (map (unat \<circ> f) (last_samples 25 (xs @ [x])))"
  have usc: "unat sc = length xs" using n by (simp add: sc unat_of_nat_u32)
  have "?S' \<le> min 25 (length (xs @ [x])) * 65535" by (rule window_sum_bound)
  also have "\<dots> \<le> 25 * 65535" by simp
  finally have bound: "?S' < 2 ^ 32" by simp
  show ?thesis
  proof (cases "length xs < 25")
    case True
    then have "sc < 25" by (simp add: word_less_nat_alt usc)
    moreover have "?S' = unat w + unat (f x)"
      using True by (simp add: sum sum_last_snoc_small)
    moreover note bound
    ultimately show ?thesis
      using window_grow [of ?S' w "f x"] by simp
  next
    case False
    then have ge: "25 \<le> length xs" by simp
    then have nlt: "\<not> sc < 25" by (simp add: word_less_nat_alt usc)
    then have "25 \<le> sc" by simp
    then have "unat (sc - 25) = length xs - 25"
      by (simp add: unat_sub usc)
    moreover have "hist ! ((length xs - 25) mod 50) = f (xs ! (length xs - 25))"
      using ge by (intro hist) simp_all
    ultimately have h: "hist ! (unat (sc - 25) mod 50) = f (xs ! (length xs - 25))" by simp
    have "unat (f (xs ! (length xs - 25))) + ?S' = unat w + unat (f x)"
      using sum_last_snoc_big [of 25 xs "unat \<circ> f" x] ge by (simp add: sum)
    then have "unat (w - ucast (f (xs ! (length xs - 25))) + ucast (f x)) = ?S'"
      using bound by (rule window_slide)
    then show ?thesis
      using nlt by (simp add: h)
  qed
qed

lemma Sensor_inv_new_hist:
  assumes len: "length hist = 50"
    and hist: "\<And>k. k < length xs \<Longrightarrow> length xs \<le> k + 50 \<Longrightarrow> hist ! (k mod 50) = f (xs ! k)"
    and k: "k < length (xs @ [x])" "length (xs @ [x]) \<le> k + 50"
  shows "hist[length xs mod 50 := f x] ! (k mod 50) = f ((xs @ [x]) ! k)"
proof (cases "k = length xs")
  case True
  then show ?thesis by (simp add: len)
next
  case False
  with k have lt: "k < length xs" and near: "length xs < k + 50" by simp_all
  then have "k mod 50 \<noteq> length xs mod 50" by (rule mod_50_distinct)
  then have "hist[length xs mod 50 := f x] ! (k mod 50) = hist ! (k mod 50)" by simp
  also have "\<dots> = f (xs ! k)" using lt near by (intro hist) simp_all
  finally show ?thesis using lt by (simp add: nth_append)
qed

lemma ps_divisor:
  assumes "n + 1 < 2 ^ 32"
  shows "(if (of_nat n :: u32) + 1 \<ge> 25 then 25 else real (unat ((of_nat n :: u32) + 1)))
    = real (min (n + 1) 25)"
proof -
  have succ: "(of_nat n :: u32) + 1 = of_nat (n + 1)" by simp
  have u: "unat ((of_nat n :: u32) + 1) = n + 1"
    unfolding succ using assms by (rule unat_of_nat_u32)
  then have "(of_nat n :: u32) + 1 \<ge> 25 \<longleftrightarrow> 25 \<le> n + 1"
    by (simp add: word_le_nat_alt)
  then show ?thesis
    unfolding u by (auto simp: min_def)
qed

lemma als_divisor:
  assumes "n + 1 < 2 ^ 32"
  shows "(if (of_nat n :: u32) \<ge> 24 then 25 else real (unat ((of_nat n :: u32) + 1)))
    = real (min (n + 1) 25)"
proof -
  have succ: "(of_nat n :: u32) + 1 = of_nat (n + 1)" by simp
  have u: "unat ((of_nat n :: u32) + 1) = n + 1"
    unfolding succ using assms by (rule unat_of_nat_u32)
  from assms have "unat (of_nat n :: u32) = n" by (intro unat_of_nat_u32) simp
  then have "(of_nat n :: u32) \<ge> 24 \<longleftrightarrow> 24 \<le> n"
    by (simp add: word_le_nat_alt)
  then show ?thesis
    unfolding u by (auto simp: min_def)
qed

lemma mean_defined:
  assumes "0 < k" and "unat (w :: u32) \<le> k * 65535"
  shows "to_uint16 (dfloor (ddiv (to_double w) (real k))) = Some (of_nat (unat w div k))"
proof -
  from assms have "unat w div k \<le> 65535"
    by (metis div_le_mono nonzero_mult_div_cancel_left less_numeral_extra(3))
  then have "unat w div k < 65536" by simp
  with assms(1) show ?thesis by (simp add: to_uint16_floor_div)
qed

lemma no_wrap_of_defined:
  assumes "to_uint16 (dfloor (if (sc :: u32) + 1 \<ge> 25 then ddiv x 25 else ddiv x (real (unat (sc + 1))))) = Some v"
  shows "unat sc + 1 < 2 ^ 32"
proof (rule ccontr)
  assume "\<not> unat sc + 1 < 2 ^ 32"
  moreover have "unat sc < 2 ^ 32" using unsigned_less [of sc, where ?'a = nat] by simp
  ultimately have "unat sc = 2 ^ 32 - 1" by simp
  then have "sc = of_nat (2 ^ 32 - 1)" by (metis of_nat_unat ucast_id)
  then have "sc + 1 = 0" by simp
  with assms show False by (cases x) simp_all
qed

lemma Sensor_inv_step:
  assumes inv: "Sensor_inv xs s" and upd: "Update_Sensor s p a = Some s'"
  shows "Sensor_inv (xs @ [(p, a)]) s'"
proof -
  let ?n = "length xs"
  from inv have n: "?n < 2 ^ 32" and sc: "sampleCount s = of_nat ?n"
    and len: "length (psHist s) = 50" "length (alsHist s) = 50"
    and ps: "\<And>k. k < ?n \<Longrightarrow> ?n \<le> k + 50 \<Longrightarrow> psHist s ! (k mod 50) = fst (xs ! k)"
    and als: "\<And>k. k < ?n \<Longrightarrow> ?n \<le> k + 50 \<Longrightarrow> alsHist s ! (k mod 50) = snd (xs ! k)"
    and sums: "unat (psWindowSum s) = sum_list (map (unat \<circ> fst) (last_samples 25 xs))"
      "unat (alsWindowSum s) = sum_list (map (unat \<circ> snd) (last_samples 25 xs))"
    by (simp_all add: Sensor_inv_def)
  have usc: "unat (sampleCount s) = ?n" using n by (simp add: sc unat_of_nat_u32)
  from upd show ?thesis
  proof (rule Update_Sensor_explicit)
    fix pm d i e am j f v w
    let ?pss = "if sampleCount s < 25 then psWindowSum s + ucast p
        else psWindowSum s - ucast (psHist s ! (unat (sampleCount s - 25) mod 50)) + ucast p"
    let ?ass = "if sampleCount s < 25 then alsWindowSum s + ucast a
        else alsWindowSum s - ucast (alsHist s ! (unat (sampleCount s - 25) mod 50)) + ucast a"
    let ?ph = "(psHist s)[unat (sampleCount s) mod 50 := p]"
    let ?ah = "(alsHist s)[unat (sampleCount s) mod 50 := a]"
    assume s': "s' = s\<lparr>psWindowSum := ?pss, alsWindowSum := ?ass, psHist := ?ph, alsHist := ?ah,
        psMean := pm, estimatedDistance := d, psSTD := dsqrt (ddiv e (real (unat i))), alsMean := am,
        alsSTD := dsqrt (ddiv f (real (unat j))), inProximity := v, isBlocked := w,
        sampleCount := sampleCount s + 1\<rparr>"
    assume mean: "to_uint16 (dfloor (if 25 \<le> sampleCount s + 1 then ddiv (to_double ?pss) 25
        else ddiv (to_double ?pss) (real (unat (sampleCount s + 1))))) = Some pm"
    from mean have n1: "?n + 1 < 2 ^ 32"
      unfolding usc [symmetric] by (rule no_wrap_of_defined)
    have "unat ?pss = sum_list (map (unat \<circ> fst) (last_samples 25 (xs @ [(p, a)])))"
      using Sensor_inv_new_sum [where f = fst and x = "(p, a)", OF n sc len(1) ps sums(1)]
      by (simp only: fst_conv)
    moreover have "unat ?ass = sum_list (map (unat \<circ> snd) (last_samples 25 (xs @ [(p, a)])))"
      using Sensor_inv_new_sum [where f = snd and x = "(p, a)", OF n sc len(2) als sums(2)]
      by (simp only: snd_conv)
    moreover have "?ph ! (k mod 50) = fst ((xs @ [(p, a)]) ! k)"
      if "k < length (xs @ [(p, a)])" "length (xs @ [(p, a)]) \<le> k + 50" for k
      using Sensor_inv_new_hist [where f = fst and x = "(p, a)", OF len(1) ps that]
      by (simp only: fst_conv usc)
    moreover have "?ah ! (k mod 50) = snd ((xs @ [(p, a)]) ! k)"
      if "k < length (xs @ [(p, a)])" "length (xs @ [(p, a)]) \<le> k + 50" for k
      using Sensor_inv_new_hist [where f = snd and x = "(p, a)", OF len(2) als that]
      by (simp only: snd_conv usc)
    moreover have "sampleCount s + 1 = of_nat (length (xs @ [(p, a)]))"
      by (simp add: sc)
    moreover from n1 have "length (xs @ [(p, a)]) < 2 ^ 32"
      by simp
    ultimately show ?thesis
      unfolding Sensor_inv_def s' using len by (simp del: length_append)
  qed
qed

lemma Update_all_inv:
  "Update_all (Reset_Sensor s0) xs = Some s \<Longrightarrow> Sensor_inv xs s"
proof (induction xs arbitrary: s rule: rev_induct)
  case Nil
  then show ?case using Sensor_inv_reset [of s0] by simp
next
  case (snoc x xs)
  obtain p a where x: "x = (p, a)" by (cases x)
  from snoc.prems obtain t where t: "Update_all (Reset_Sensor s0) xs = Some t"
    and upd: "Update_Sensor t p a = Some s"
    by (auto simp: x Update_all_snoc bind_eq_Some_conv)
  from snoc.IH [OF t] upd show ?case
    unfolding x by (rule Sensor_inv_step)
qed

section \<open>Runs with defined behaviour\<close>

lemma ddiv_if: "ddiv x (if c then u else v) = (if c then ddiv x u else ddiv x v)"
  by simp

lemma Update_Sensor_defined:
  assumes inv: "Sensor_inv xs s" and n1: "length xs + 1 < 2 ^ 32"
    and tab: "16 \<le> length (proxTable s)"
  shows "Update_Sensor s p a \<noteq> None"
proof -
  let ?n = "length xs"
  let ?K = "min (?n + 1) 25"
  let ?xs' = "xs @ [(p, a)]"
  from inv have n: "?n < 2 ^ 32" and sc: "sampleCount s = of_nat ?n"
    and len: "length (psHist s) = 50" "length (alsHist s) = 50"
    and ps: "\<And>k. k < ?n \<Longrightarrow> ?n \<le> k + 50 \<Longrightarrow> psHist s ! (k mod 50) = fst (xs ! k)"
    and als: "\<And>k. k < ?n \<Longrightarrow> ?n \<le> k + 50 \<Longrightarrow> alsHist s ! (k mod 50) = snd (xs ! k)"
    and sums: "unat (psWindowSum s) = sum_list (map (unat \<circ> fst) (last_samples 25 xs))"
      "unat (alsWindowSum s) = sum_list (map (unat \<circ> snd) (last_samples 25 xs))"
    by (simp_all add: Sensor_inv_def)
  define pss where "pss = (if sampleCount s < 25 then psWindowSum s + ucast p
        else psWindowSum s - ucast (psHist s ! (unat (sampleCount s - 25) mod 50)) + ucast p)"
  define ass where "ass = (if sampleCount s < 25 then alsWindowSum s + ucast a
        else alsWindowSum s - ucast (alsHist s ! (unat (sampleCount s - 25) mod 50)) + ucast a)"
  define s1 where "s1 = s\<lparr>psWindowSum := pss\<rparr>"
  define s2 where "s2 = s1\<lparr>alsWindowSum := ass\<rparr>"
  define s3 where "s3 = s2\<lparr>psHist := (psHist s)[unat (sampleCount s) mod 50 := p],
    alsHist := (alsHist s)[unat (sampleCount s) mod 50 := a]\<rparr>"
  define pm :: u16 where "pm = of_nat (unat pss div ?K)"
  define am :: u16 where "am = of_nat (unat ass div ?K)"
  define s4 where "s4 = s3\<lparr>psMean := pm\<rparr>"
  have b1: "Update_PS_Window_Sum s p = Some s1"
    unfolding Update_PS_Window_Sum_eq s1_def pss_def by (simp add: len)
  have b2: "Update_ALS_Window_Sum s1 a = Some s2"
    unfolding Update_ALS_Window_Sum_eq s2_def ass_def s1_def by (simp add: len)
  have b3: "Store_History s2 p a = Some s3"
    unfolding Store_History_eq s3_def s2_def s1_def by (simp add: len)
  have pss: "unat pss = sum_list (map (unat \<circ> fst) (last_samples 25 ?xs'))"
    unfolding pss_def
    using Sensor_inv_new_sum [where f = fst and x = "(p, a)", OF n sc len(1) ps sums(1)]
    by (simp only: fst_conv)
  have ass: "unat ass = sum_list (map (unat \<circ> snd) (last_samples 25 ?xs'))"
    unfolding ass_def
    using Sensor_inv_new_sum [where f = snd and x = "(p, a)", OF n sc len(2) als sums(2)]
    by (simp only: snd_conv)
  have K: "0 < ?K" by simp
  have "unat pss \<le> min 25 (length ?xs') * 65535"
    unfolding pss by (rule window_sum_bound)
  then have "unat pss \<le> ?K * 65535" by (simp add: min.commute)
  with K have pmean: "to_uint16 (dfloor (ddiv (to_double pss) (real ?K))) = Some pm"
    unfolding pm_def by (rule mean_defined)
  have "unat ass \<le> min 25 (length ?xs') * 65535"
    unfolding ass by (rule window_sum_bound)
  then have "unat ass \<le> ?K * 65535" by (simp add: min.commute)
  with K have amean: "to_uint16 (dfloor (ddiv (to_double ass) (real ?K))) = Some am"
    unfolding am_def by (rule mean_defined)
  define pmd where "pmd = ddiv (to_double pss) (real ?K)"
  define amd where "amd = ddiv (to_double ass) (real ?K)"
  have pmd: "(if sampleCount s + 1 \<ge> 25 then ddiv (to_double pss) 25
          else ddiv (to_double pss) (real (unat (sampleCount s + 1)))) = pmd"
    unfolding pmd_def ps_divisor [OF n1, symmetric] sc ddiv_if ..
  have amd: "(if sampleCount s \<ge> 24 then ddiv (to_double ass) 25
          else ddiv (to_double ass) (real (unat (sampleCount s + 1)))) = amd"
    unfolding amd_def als_divisor [OF n1, symmetric] sc ddiv_if ..
  have f3: "sampleCount s3 = sampleCount s" "psWindowSum s3 = pss"
    by (simp_all add: s3_def s2_def s1_def)
  from pmean have "to_uint16 (dfloor pmd) = Some pm"
    unfolding pmd_def .
  then have b4: "PS_Mean s3 = Some (s4, pmd)"
    unfolding PS_Mean_eq f3 pmd by (simp add: s4_def)
  have "Distance_Lookup_from 0 pm (proxTable s) distanceTable 16 \<noteq> None"
    using tab by (intro Distance_Lookup_from_defined) (simp_all add: distanceTable_def)
  then obtain d where d: "Distance_Lookup pm (proxTable s) distanceTable 16 = Some d"
    unfolding Distance_Lookup_def by blast
  define s5 where "s5 = s4\<lparr>estimatedDistance := d\<rparr>"
  have b5: "Estimate_Distance s4 = Some s5"
    unfolding Estimate_Distance_eq using d
    by (simp add: s5_def s4_def s3_def s2_def s1_def)
  have "STD_loop (psHist s5) (sampleCount s5) pmd 0 (Num 0) \<noteq> None"
    by (rule STD_loop_defined) (simp add: s5_def s4_def s3_def s2_def s1_def len)
  then obtain s6 where b6: "PS_STD s5 pmd = Some s6" and s6: "\<exists>v. s6 = s5\<lparr>psSTD := v\<rparr>"
    unfolding PS_STD_eq by auto
  from s6 have f6: "sampleCount s6 = sampleCount s" "alsWindowSum s6 = ass"
    by (auto simp: s5_def s4_def s3_def s2_def s1_def)
  from amean have "to_uint16 (dfloor amd) = Some am"
    unfolding amd_def .
  then have b7: "ALS_Mean s6 = Some (s6\<lparr>alsMean := am\<rparr>, amd)"
    unfolding ALS_Mean_eq f6 amd by simp
  have "STD_loop (alsHist (s6\<lparr>alsMean := am\<rparr>)) (sampleCount (s6\<lparr>alsMean := am\<rparr>)) amd 0 (Num 0) \<noteq> None"
    using s6 by (intro STD_loop_defined) (auto simp: s5_def s4_def s3_def s2_def s1_def len)
  then obtain s8 where b8: "ALS_STD (s6\<lparr>alsMean := am\<rparr>) amd = Some s8"
    unfolding ALS_STD_eq by auto
  show ?thesis
    unfolding Update_Sensor_def by (simp add: b1 b2 b3 b4 b5 b6 b7 b8)
qed

lemma Update_Sensor_frame:
  assumes "Update_Sensor s p a = Some s'"
  shows "proxTable s' = proxTable s" "index s' = index s"
  using assms by (rule Update_Sensor_explicit, simp)+

lemma Update_all_frame:
  "Update_all s0 xs = Some s \<Longrightarrow>
     proxTable s = proxTable s0 \<and> index s = index s0
     \<and> psProxMin s = psProxMin s0 \<and> psProxMax s = psProxMax s0"
proof (induction xs arbitrary: s rule: rev_induct)
  case Nil
  then show ?case by simp
next
  case (snoc x xs)
  obtain p a where x: "x = (p, a)" by (cases x)
  from snoc.prems obtain t where t: "Update_all s0 xs = Some t"
    and upd: "Update_Sensor t p a = Some s"
    by (auto simp: x Update_all_snoc bind_eq_Some_conv)
  from snoc.IH [OF t] Update_Sensor_frame [OF upd] Update_Sensor_flags(4,5) [OF upd]
  show ?case by simp
qed

lemma Update_all_defined:
  assumes "16 \<le> length (proxTable s0)"
  shows "length xs < 2 ^ 32 \<Longrightarrow> Update_all (Reset_Sensor s0) xs \<noteq> None"
proof (induction xs rule: rev_induct)
  case Nil
  then show ?case by simp
next
  case (snoc x xs)
  obtain p a where x: "x = (p, a)" by (cases x)
  from snoc obtain t where t: "Update_all (Reset_Sensor s0) xs = Some t"
    by auto
  then have "Sensor_inv xs t" by (rule Update_all_inv)
  moreover from snoc.prems have "length xs + 1 < 2 ^ 32" by simp
  moreover from Update_all_frame [OF t] assms have "16 \<le> length (proxTable t)"
    by (simp add: Reset_Sensor_def)
  ultimately have "Update_Sensor t p a \<noteq> None"
    by (rule Update_Sensor_defined)
  then show ?case
    by (simp add: x Update_all_snoc t)
qed

lemma unat_of_nat_u16: "q < 65536 \<Longrightarrow> unat (of_nat q :: u16) = q"
  by (simp add: unat_of_nat)

lemma Update_Sensor_means:
  assumes "Update_Sensor s p a = Some s'"
  shows "unat (sampleCount s) + 1 < 2 ^ 32"
    and "unat (psMean s') = unat (psWindowSum s') div min (unat (sampleCount s) + 1) 25"
    and "unat (alsMean s') = unat (alsWindowSum s') div min (unat (sampleCount s) + 1) 25"
proof -
  let ?sc = "sampleCount s"
  from assms have n1: "unat ?sc + 1 < 2 ^ 32"
    by (rule Update_Sensor_explicit) (rule no_wrap_of_defined)
  then have u: "unat (?sc + 1) = unat ?sc + 1"
    using unat_add_lem [of ?sc 1] by simp
  have ps: "unat pm = unat w div min (unat ?sc + 1) 25"
    if "to_uint16 (dfloor (if 25 \<le> ?sc + 1 then ddiv (to_double w) 25
          else ddiv (to_double w) (real (unat (?sc + 1))))) = Some pm" for pm and w :: u32
  proof (cases "25 \<le> ?sc + 1")
    case True
    then have "25 \<le> unat ?sc + 1" by (simp add: word_le_nat_alt u)
    then have "min (unat ?sc + 1) 25 = 25" by simp
    moreover from that True have "unat w div 25 < 65536 \<and> pm = of_nat (unat w div 25)"
      using to_uint16_floor_div [of w 25 pm] by simp
    ultimately show ?thesis by (simp add: unat_of_nat_u16)
  next
    case False
    then have "\<not> 25 \<le> unat ?sc + 1" by (simp add: word_le_nat_alt u)
    then have "min (unat ?sc + 1) 25 = unat ?sc + 1" by simp
    moreover from that False
    have "unat w div (unat ?sc + 1) < 65536 \<and> pm = of_nat (unat w div (unat ?sc + 1))"
      using to_uint16_floor_div [of w "unat (?sc + 1)" pm] by (simp add: u del: of_nat_unat)
    ultimately show ?thesis by (simp add: unat_of_nat_u16)
  qed
  have als: "unat am = unat w div min (unat ?sc + 1) 25"
    if "to_uint16 (dfloor (if 24 \<le> ?sc then ddiv (to_double w) 25
          else ddiv (to_double w) (real (unat (?sc + 1))))) = Some am" for am and w :: u32
  proof (cases "24 \<le> ?sc")
    case True
    then have "25 \<le> unat ?sc + 1" by (simp add: word_le_nat_alt)
    then have "min (unat ?sc + 1) 25 = 25" by simp
    moreover from that True have "unat w div 25 < 65536 \<and> am = of_nat (unat w div 25)"
      using to_uint16_floor_div [of w 25 am] by simp
    ultimately show ?thesis by (simp add: unat_of_nat_u16)
  next
    case False
    then have "\<not> 25 \<le> unat ?sc + 1" by (simp add: word_le_nat_alt)
    then have "min (unat ?sc + 1) 25 = unat ?sc + 1" by simp
    moreover from that False
    have "unat w div (unat ?sc + 1) < 65536 \<and> am = of_nat (unat w div (unat ?sc + 1))"
      using to_uint16_floor_div [of w "unat (?sc + 1)" am] by (simp add: u del: of_nat_unat)
    ultimately show ?thesis by (simp add: unat_of_nat_u16)
  qed
  from n1 show "unat ?sc + 1 < 2 ^ 32" .
  from assms show "unat (psMean s') = unat (psWindowSum s') div min (unat ?sc + 1) 25"
    by (rule Update_Sensor_explicit) (simp add: ps)
  from assms show "unat (alsMean s') = unat (alsWindowSum s') div min (unat ?sc + 1) 25"
    by (rule Update_Sensor_explicit) (simp add: als)
qed

lemma Update_Sensor_wrap:
  assumes "unat (sampleCount s) + 1 = 2 ^ 32"
  shows "Update_Sensor s p a = None"
proof (cases "Update_Sensor s p a")
  case None
  then show ?thesis .
next
  case (Some s')
  then have "unat (sampleCount s) + 1 < 2 ^ 32" by (rule Update_Sensor_means(1))
  with assms show ?thesis by simp
qed

lemma Update_all_means:
  assumes tab: "DIST_LOOKUP_LEN \<le> length (proxTable s0)" and len: "length ys + 1 < 2 ^ 32"
  obtains t t' where "Update_all (Reset_Sensor s0) ys = Some t"
    and "Update_Sensor t p a = Some t'"
    and "Sensor_inv ys t" and "Sensor_inv (ys @ [(p, a)]) t'"
    and "unat (sampleCount t) = length ys"
    and "unat (psMean t') = unat (psWindowSum t') div min (length ys + 1) 25"
    and "unat (alsMean t') = unat (alsWindowSum t') div min (length ys + 1) 25"
proof -
  from len have "length (ys @ [(p, a)]) < 2 ^ 32" by simp
  with tab have "Update_all (Reset_Sensor s0) (ys @ [(p, a)]) \<noteq> None"
    by (rule Update_all_defined)
  then obtain t' where run': "Update_all (Reset_Sensor s0) (ys @ [(p, a)]) = Some t'"
    by blast
  then obtain t where run: "Update_all (Reset_Sensor s0) ys = Some t"
    and upd: "Update_Sensor t p a = Some t'"
    by (auto simp: Update_all_snoc bind_eq_Some_conv)
  from run have inv: "Sensor_inv ys t" by (rule Update_all_inv)
  from run' have inv': "Sensor_inv (ys @ [(p, a)]) t'" by (rule Update_all_inv)
  from inv have count: "unat (sampleCount t) = length ys"
    by (simp add: Sensor_inv_def unat_of_nat_u32)
  from Update_Sensor_means(2,3) [OF upd]
  have "unat (psMean t') = unat (psWindowSum t') div min (length ys + 1) 25"
    "unat (alsMean t') = unat (alsWindowSum t') div min (length ys + 1) 25"
    unfolding count by simp_all
  with run upd inv inv' count show thesis by (rule that)
qed

section \<open>More evaluation on the example inputs\<close>

lemma ramp_sums:
  "length ramp = 30"
  "sum_list (map (unat \<circ> fst) (last_samples PS_WINDOW ramp)) = 425"
  "sum_list (map (unat \<circ> snd) (last_samples ALS_WINDOW ramp)) = 850"
  by (simp_all add: ramp_def last_samples_def drop_map upt_rec_numeral)

lemma ramp_snoc: "butlast ramp @ [(29, 58)] = ramp" "length (butlast ramp) = 29"
proof -
  have "ramp \<noteq> []" "last ramp = (29, 58)"
    by (simp_all add: ramp_def last_map)
  then show "butlast ramp @ [(29, 58)] = ramp"
    using append_butlast_last_id [of ramp] by simp
  show "length (butlast ramp) = 29"
    by (simp add: ramp_def)
qed

lemma floor_div_nat: "int (a div b) = \<lfloor>real a / real b\<rfloor>"
  by (simp only: floor_divide_of_nat_eq)

lemma example_sensor_reset: "Reset_Sensor example_sensor = example_sensor"
  by (simp add: example_sensor_eq Reset_Sensor_def)

lemma example_near_mean:
  "map_option (\<lambda>s. (psWindowSum s, psMean s, alsWindowSum s, alsMean s)) (Update_Sensor example_near 7 5)
     = Some (19, 9, 5, 2)"
  by (simp add: example_near_def example_table_def Update_Sensor_eval)

section \<open>Standard deviations of a run\<close>

lemma sum_list_all_zero:
  fixes g :: "'a \<Rightarrow> real"
  shows "(\<And>v. v \<in> set vs \<Longrightarrow> g v = 0) \<Longrightarrow> sum_list (map g vs) = 0"
  by (induction vs) simp_all

lemma sum_list_all_same:
  fixes g :: "'a \<Rightarrow> nat"
  shows "(\<And>v. v \<in> set vs \<Longrightarrow> v = c) \<Longrightarrow> sum_list (map g vs) = length vs * g c"
  by (induction vs) auto

lemma window_std_constant:
  assumes "vs \<noteq> []" and "\<And>v. v \<in> set vs \<Longrightarrow> v = c"
  shows "window_std vs = 0"
proof -
  from assms(1) have pos: "0 < length vs" by simp
  have "sum_list (map unat vs) = length vs * unat c"
    using assms(2) by (rule sum_list_all_same)
  then have mean: "window_mean vs = real (unat c)"
    using pos by (simp add: window_mean_def del: of_nat_unat)
  have "sum_list (map (\<lambda>v. (real (unat v) - real (unat c))\<^sup>2) vs) = 0"
    using assms(2) by (intro sum_list_all_zero) simp
  then show ?thesis
    unfolding window_std_def mean by simp
qed

lemma STD_of_window:
  fixes f :: "u16 \<times> u16 \<Rightarrow> u16" and w :: u32
  assumes n: "n < 2 ^ 31" and len': "length xs' = n + 1" and len: "length hist = 50"
    and hist: "\<And>k. k < length xs' \<Longrightarrow> length xs' \<le> k + 50 \<Longrightarrow> hist ! (k mod 50) = f (xs' ! k)"
    and sum: "unat w = sum_list (map (unat \<circ> f) (last_samples 25 xs'))"
    and loop: "STD_loop hist (of_nat n) (ddiv (to_double w) (real (min (n + 1) 25))) 0 (Num 0) = Some (i, e)"
  shows "dsqrt (ddiv e (real (unat i))) = Num (window_std (last_samples 25 (map f xs')))"
proof -
  let ?vs = "last_samples 25 (map f xs')"
  define K where "K = min (n + 1) 25"
  define \<mu> where "\<mu> = real (unat w) / real K"
  have K: "0 < K" "K \<le> 25" "K \<le> n + 1" "K = 25 \<or> K = n + 1"
    by (auto simp: min_def K_def)
  have K': "K = min 25 (length xs')"
    by (simp add: K_def len' min.commute)
  note loop = loop [folded K_def]
  have lvs: "length ?vs = K"
    by (simp add: length_last_samples K')
  have m: "ddiv (to_double w) (real K) = Num \<mu>"
    using K(1) by (simp add: to_double_def \<mu>_def del: of_nat_unat)
  have "sum_list (map unat ?vs) = unat w"
    by (simp add: sum last_samples_map)
  then have mean: "window_mean ?vs = \<mu>"
    by (simp add: window_mean_def lvs \<mu>_def del: of_nat_unat)
  have "STD_loop hist (of_nat n) (Num \<mu>) 0 (Num 0) =
      Some (of_nat K, Num (0 + (\<Sum>j = unat (0 :: u16)..<K. (real (unat (hist ! ((n - j) mod 50))) - \<mu>)\<^sup>2)))"
    using n len K(2-4) by (rule STD_loop_value) simp
  with loop have i: "i = of_nat K"
    and e: "e = Num (\<Sum>j<K. (real (unat (hist ! ((n - j) mod 50))) - \<mu>)\<^sup>2)"
    by (simp_all add: m atLeast0LessThan del: of_nat_unat)
  have "unat (of_nat K :: u16) = K"
    using K(2) by (intro unat_of_nat_u16) simp
  then have ui: "unat i = K" by (simp add: i)
  have "(\<Sum>j<K. (real (unat (hist ! ((n - j) mod 50))) - \<mu>)\<^sup>2)
      = (\<Sum>j<min 25 (length xs'). (real (unat (f (xs' ! (length xs' - 1 - j)))) - \<mu>)\<^sup>2)"
  proof (rule sum.cong)
    show "{..<K} = {..<min 25 (length xs')}" by (simp only: K')
  next
    fix j assume "j \<in> {..<min 25 (length xs')}"
    then have "j < K" by (simp add: K')
    with K have "j < 25" "j \<le> n" by simp_all
    then have "hist ! ((n - j) mod 50) = f (xs' ! (n - j))"
      by (intro hist) (simp_all add: len')
    then show "(real (unat (hist ! ((n - j) mod 50))) - \<mu>)\<^sup>2
        = (real (unat (f (xs' ! (length xs' - 1 - j)))) - \<mu>)\<^sup>2"
      by (simp add: len')
  qed
  also have "\<dots> = sum_list (map (\<lambda>x. (real (unat (f x)) - \<mu>)\<^sup>2) (last_samples 25 xs'))"
    by (rule sum_last_nth [symmetric])
  also have "\<dots> = sum_list (map (\<lambda>v. (real (unat v) - \<mu>)\<^sup>2) ?vs)"
    by (simp add: last_samples_map comp_def)
  finally have E: "e = Num (sum_list (map (\<lambda>v. (real (unat v) - \<mu>)\<^sup>2) ?vs))"
    unfolding e by simp
  have "0 \<le> sum_list (map (\<lambda>v. (real (unat v) - \<mu>)\<^sup>2) ?vs)"
    by (rule sum_list_nonneg) auto
  then have "\<not> sum_list (map (\<lambda>v. (real (unat v) - \<mu>)\<^sup>2) ?vs) / real K < 0"
    by (simp add: not_less)
  then show ?thesis
    unfolding E ui window_std_def mean lvs using K(1) by simp
qed

lemma Update_Sensor_STD_loops:
  assumes upd: "Update_Sensor s p a = Some s'"
  obtains i e j f where
    "STD_loop (psHist s') (sampleCount s)
       (if 25 \<le> sampleCount s + 1 then ddiv (to_double (psWindowSum s')) 25
        else ddiv (to_double (psWindowSum s')) (real (unat (sampleCount s + 1)))) 0 (Num 0) = Some (i, e)"
    "psSTD s' = dsqrt (ddiv e (real (unat i)))"
    "STD_loop (alsHist s') (sampleCount s)
       (if 24 \<le> sampleCount s then ddiv (to_double (alsWindowSum s')) 25
        else ddiv (to_double (alsWindowSum s')) (real (unat (sampleCount s + 1)))) 0 (Num 0) = Some (j, f)"
    "alsSTD s' = dsqrt (ddiv f (real (unat j)))"
proof -
  from upd show thesis
  proof (rule Update_Sensor_explicit)
    fix pm d and i :: u16 and e am and j :: u16 and f v w
    let ?pss = "if sampleCount s < 25 then psWindowSum s + ucast p
        else psWindowSum s - ucast (psHist s ! (unat (sampleCount s - 25) mod 50)) + ucast p"
    let ?ass = "if sampleCount s < 25 then alsWindowSum s + ucast a
        else alsWindowSum s - ucast (alsHist s ! (unat (sampleCount s - 25) mod 50)) + ucast a"
    let ?ph = "(psHist s)[unat (sampleCount s) mod 50 := p]"
    let ?ah = "(alsHist s)[unat (sampleCount s) mod 50 := a]"
    assume s': "s' = s\<lparr>psWindowSum := ?pss, alsWindowSum := ?ass, psHist := ?ph, alsHist := ?ah,
        psMean := pm, estimatedDistance := d, psSTD := dsqrt (ddiv e (real (unat i))), alsMean := am,
        alsSTD := dsqrt (ddiv f (real (unat j))), inProximity := v, isBlocked := w,
        sampleCount := sampleCount s + 1\<rparr>"
    assume pl: "STD_loop ?ph (sampleCount s)
        (if 25 \<le> sampleCount s + 1 then ddiv (to_double ?pss) 25
         else ddiv (to_double ?pss) (real (unat (sampleCount s + 1)))) 0 (Num 0) = Some (i, e)"
    assume al: "STD_loop ?ah (sampleCount s)
        (if 24 \<le> sampleCount s then ddiv (to_double ?ass) 25
         else ddiv (to_double ?ass) (real (unat (sampleCount s + 1)))) 0 (Num 0) = Some (j, f)"
    have f: "psHist s' = ?ph" "alsHist s' = ?ah" "psWindowSum s' = ?pss" "alsWindowSum s' = ?ass"
      "psSTD s' = dsqrt (ddiv e (real (unat i)))" "alsSTD s' = dsqrt (ddiv f (real (unat j)))"
      unfolding s' by simp_all
    show thesis
      by (rule that [of i e j f]) (simp_all only: f pl al)
  qed
qed

lemma Update_Sensor_STD:
  assumes inv: "Sensor_inv xs s" and upd: "Update_Sensor s p a = Some s'"
  shows "length xs < 2 ^ 31 \<Longrightarrow>
      psSTD s' = Num (window_std (last_samples 25 (map fst (xs @ [(p, a)]))))
      \<and> alsSTD s' = Num (window_std (last_samples 25 (map snd (xs @ [(p, a)]))))"
    and "2 ^ 31 \<le> length xs \<Longrightarrow> psSTD s' = NaN_or_Inf \<and> alsSTD s' = NaN_or_Inf"
proof -
  let ?n = "length xs" and ?xs' = "xs @ [(p, a)]"
  from inv have sc: "sampleCount s = of_nat ?n" and n32: "?n < 2 ^ 32"
    by (simp_all add: Sensor_inv_def)
  from inv upd have inv': "Sensor_inv ?xs' s'" by (rule Sensor_inv_step)
  then have n1: "?n + 1 < 2 ^ 32"
    and len: "length (psHist s') = 50" "length (alsHist s') = 50"
    and ps: "\<And>k. k < length ?xs' \<Longrightarrow> length ?xs' \<le> k + 50 \<Longrightarrow> psHist s' ! (k mod 50) = fst (?xs' ! k)"
    and als: "\<And>k. k < length ?xs' \<Longrightarrow> length ?xs' \<le> k + 50 \<Longrightarrow> alsHist s' ! (k mod 50) = snd (?xs' ! k)"
    and sums: "unat (psWindowSum s') = sum_list (map (unat \<circ> fst) (last_samples 25 ?xs'))"
      "unat (alsWindowSum s') = sum_list (map (unat \<circ> snd) (last_samples 25 ?xs'))"
    by (simp_all add: Sensor_inv_def)
  from upd obtain i e j f where
    pl: "STD_loop (psHist s') (of_nat ?n)
          (if 25 \<le> (of_nat ?n :: u32) + 1 then ddiv (to_double (psWindowSum s')) 25
           else ddiv (to_double (psWindowSum s')) (real (unat ((of_nat ?n :: u32) + 1)))) 0 (Num 0) = Some (i, e)"
    and pstd: "psSTD s' = dsqrt (ddiv e (real (unat i)))"
    and al: "STD_loop (alsHist s') (of_nat ?n)
          (if 24 \<le> (of_nat ?n :: u32) then ddiv (to_double (alsWindowSum s')) 25
           else ddiv (to_double (alsWindowSum s')) (real (unat ((of_nat ?n :: u32) + 1)))) 0 (Num 0) = Some (j, f)"
    and astd: "alsSTD s' = dsqrt (ddiv f (real (unat j)))"
    unfolding sc [symmetric] by (rule Update_Sensor_STD_loops)
  note pl' = pl [folded ddiv_if, unfolded ps_divisor [OF n1]]
  note al' = al [folded ddiv_if, unfolded als_divisor [OF n1]]
  {
    assume n: "?n < 2 ^ 31"
    have "dsqrt (ddiv e (real (unat i))) = Num (window_std (last_samples 25 (map fst ?xs')))"
      using n _ len(1) ps sums(1) pl' by (rule STD_of_window) simp
    moreover have "dsqrt (ddiv f (real (unat j))) = Num (window_std (last_samples 25 (map snd ?xs')))"
      using n _ len(2) als sums(2) al' by (rule STD_of_window) simp
    ultimately show "psSTD s' = Num (window_std (last_samples 25 (map fst ?xs')))
      \<and> alsSTD s' = Num (window_std (last_samples 25 (map snd ?xs')))"
      by (simp add: pstd astd)
  }
  {
    assume "2 ^ 31 \<le> ?n"
    then have "sint (of_nat ?n :: u32) < 0"
      using n32 by (simp add: sint_of_nat_u32)
    then have "STD_loop hist (of_nat ?n) m 0 (Num 0) = Some (0, Num 0)" for hist m
      by (rule STD_loop_negative)
    with pl al have "i = 0" "e = Num 0" "j = 0" "f = Num 0"
      by simp_all
    then show "psSTD s' = NaN_or_Inf \<and> alsSTD s' = NaN_or_Inf"
      by (simp add: pstd astd)
  }
qed

lemma Update_all_STD:
  assumes run: "Update_all (Reset_Sensor s0) xs = Some s" and ne: "xs \<noteq> []"
  shows "length xs \<le> 2 ^ 31 \<Longrightarrow>
      psSTD s = Num (window_std (last_samples 25 (map fst xs)))
      \<and> alsSTD s = Num (window_std (last_samples 25 (map snd xs)))"
    and "2 ^ 31 < length xs \<Longrightarrow> psSTD s = NaN_or_Inf \<and> alsSTD s = NaN_or_Inf"
proof -
  from ne obtain ys p a where xs: "xs = ys @ [(p, a)]"
    by (cases xs rule: rev_cases) auto
  from run obtain t where t: "Update_all (Reset_Sensor s0) ys = Some t"
    and upd: "Update_Sensor t p a = Some s"
    by (auto simp: xs Update_all_snoc bind_eq_Some_conv)
  from t have inv: "Sensor_inv ys t" by (rule Update_all_inv)
  show "length xs \<le> 2 ^ 31 \<Longrightarrow>
      psSTD s = Num (window_std (last_samples 25 (map fst xs)))
      \<and> alsSTD s = Num (window_std (last_samples 25 (map snd xs)))"
    unfolding xs using Update_Sensor_STD(1) [OF inv upd] by simp
  show "2 ^ 31 < length xs \<Longrightarrow> psSTD s = NaN_or_Inf \<and> alsSTD s = NaN_or_Inf"
    unfolding xs using Update_Sensor_STD(2) [OF inv upd] by simp
qed

lemma example_table_length: "DIST_LOOKUP_LEN \<le> length (proxTable example_sensor)"
  by (simp add: example_sensor_eq example_table_def)

text \<open>
  While \<open>sampleCount\<close> is below \<open>2 ^ 31\<close> before the call, the two loops compute the standard
  deviations of the windows, which are 0 for windows of equal samples.
\<close>

lemma Update_all_STD_window:
  assumes "Update_all (Reset_Sensor s0) xs = Some s" and "xs \<noteq> []" and "length xs \<le> 2 ^ 31"
  shows "psSTD s = Num (window_std (last_samples PS_WINDOW (map fst xs)))
    \<and> alsSTD s = Num (window_std (last_samples ALS_WINDOW (map snd xs)))
    \<and> ((\<forall>v \<in> set (last_samples PS_WINDOW (map fst xs)). v = c) \<longrightarrow> psSTD s = Num 0)
    \<and> ((\<forall>v \<in> set (last_samples ALS_WINDOW (map snd xs)). v = c') \<longrightarrow> alsSTD s = Num 0)"
proof -
  have ne: "last_samples 25 (map f xs) \<noteq> []" for f :: "u16 \<times> u16 \<Rightarrow> u16"
    using assms(2) length_last_samples [of 25 "map f xs"] by (cases xs) auto
  from Update_all_STD(1) [OF assms]
  have std: "psSTD s = Num (window_std (last_samples 25 (map fst xs)))"
    "alsSTD s = Num (window_std (last_samples 25 (map snd xs)))"
    by simp_all
  moreover have "psSTD s = Num 0" if "\<forall>v \<in> set (last_samples 25 (map fst xs)). v = c"
    unfolding std using ne that by (simp add: window_std_constant [where c = c])
  moreover have "alsSTD s = Num 0" if "\<forall>v \<in> set (last_samples 25 (map snd xs)). v = c'"
    unfolding std using ne that by (simp add: window_std_constant [where c = c'])
  ultimately show ?thesis by blast
qed

lemma Update_all_STD_examples:
  "(\<exists>s. Update_all (Reset_Sensor example_sensor) (replicate 30 (7, 3)) = Some s
       \<and> psSTD s = Num 0 \<and> alsSTD s = Num 0)
   \<and> (\<exists>s. Update_all (Reset_Sensor example_sensor) [(12, 0), (7, 5)] = Some s
       \<and> psSTD s = Num (5 / 2) \<and> alsSTD s = Num (5 / 2))"
proof -
  let ?xs = "replicate 30 (7, 3) :: (u16 \<times> u16) list" and ?ys = "[(12, 0), (7, 5)] :: (u16 \<times> u16) list"
  have "Update_all (Reset_Sensor example_sensor) ?xs \<noteq> None"
    using example_table_length by (rule Update_all_defined) simp
  then obtain s where s: "Update_all (Reset_Sensor example_sensor) ?xs = Some s"
    by blast
  have "Update_all (Reset_Sensor example_sensor) ?ys \<noteq> None"
    using example_table_length by (rule Update_all_defined) simp
  then obtain t where t: "Update_all (Reset_Sensor example_sensor) ?ys = Some t"
    by blast
  have sq: "sqrt (25 / 4) = 5 / 2"
    by (rule real_sqrt_unique) (simp_all add: power2_eq_square)
  have "window_std [12, 7] = 5 / 2" "window_std [0, 5] = 5 / 2"
    by (simp_all add: window_std_def window_mean_def power2_eq_square sq)
  with Update_all_STD_window [OF t, of 0 0]
  have "psSTD t = Num (5 / 2) \<and> alsSTD t = Num (5 / 2)"
    by (simp add: last_samples_def)
  moreover from Update_all_STD_window [OF s, of 7 3, THEN conjunct2, THEN conjunct2]
  have "psSTD s = Num 0 \<and> alsSTD s = Num 0"
    by (simp add: last_samples_def)
  ultimately show ?thesis using s t by blast
qed

text \<open>A run that feeds the same sample pair at every call.\<close>

lemma constant_run:
  assumes tab: "DIST_LOOKUP_LEN \<le> length (proxTable s0)" and n25: "25 \<le> n" and n: "n < 2 ^ 32"
  obtains s where "Update_all (Reset_Sensor s0) (replicate n (p, a)) = Some s"
    and "sampleCount s = of_nat n"
    and "psWindowSum s = of_nat (25 * unat p)" and "psMean s = p"
    and "alsWindowSum s = of_nat (25 * unat a)" and "alsMean s = a"
    and "n \<le> 2 ^ 31 \<Longrightarrow> psSTD s = Num 0 \<and> alsSTD s = Num 0"
    and "2 ^ 31 < n \<Longrightarrow> psSTD s = NaN_or_Inf \<and> alsSTD s = NaN_or_Inf"
proof -
  let ?xs = "replicate n (p, a)"
  from n25 obtain m where m: "n = m + 1" by (cases n) auto
  then have xs: "?xs = replicate m (p, a) @ [(p, a)]"
    by (simp add: replicate_append_same)
  from n m have "length (replicate m (p, a)) + 1 < 2 ^ 32" by simp
  with tab obtain t s where run: "Update_all (Reset_Sensor s0) (replicate m (p, a)) = Some t"
    and upd: "Update_Sensor t p a = Some s"
    and inv: "Sensor_inv (replicate m (p, a) @ [(p, a)]) s"
    and means: "unat (psMean s) = unat (psWindowSum s) div min (length (replicate m (p, a)) + 1) 25"
      "unat (alsMean s) = unat (alsWindowSum s) div min (length (replicate m (p, a)) + 1) 25"
    by (rule Update_all_means) blast
  from run upd have s: "Update_all (Reset_Sensor s0) ?xs = Some s"
    unfolding xs by (simp add: Update_all_snoc)
  from inv have inv: "Sensor_inv ?xs s" unfolding xs .
  then have count: "sampleCount s = of_nat n"
    by (simp add: Sensor_inv_def)
  from inv n25 have sums: "unat (psWindowSum s) = 25 * unat p" "unat (alsWindowSum s) = 25 * unat a"
    by (simp_all add: Sensor_inv_def last_samples_replicate sum_list_replicate)
  from means n25 have "unat (psMean s) = unat p" "unat (alsMean s) = unat a"
    unfolding sums by (simp_all add: m)
  then have mean: "psMean s = p" "alsMean s = a"
    by (simp_all add: word_unat_eq_iff)
  from n25 have ne: "?xs \<noteq> []" by auto
  have w: "last_samples 25 (map f ?xs) = replicate 25 (f (p, a))" for f :: "u16 \<times> u16 \<Rightarrow> u16"
    using n25 by (simp add: last_samples_replicate)
  have z: "window_std (replicate 25 v) = 0" for v :: u16
    by (rule window_std_constant [where c = v]) simp_all
  have short: "psSTD s = Num 0 \<and> alsSTD s = Num 0" if "n \<le> 2 ^ 31"
    using Update_all_STD(1) [OF s ne] that by (simp only: w z length_replicate)
  have long: "psSTD s = NaN_or_Inf \<and> alsSTD s = NaN_or_Inf" if "2 ^ 31 < n"
    using Update_all_STD(2) [OF s ne] that by simp
  from s count word_of_unat [OF sums(1)] mean(1) word_of_unat [OF sums(2)] mean(2) short long
  show thesis by (rule that)
qed

section \<open>The end-to-end test of the hysteresis\<close>

lemma inProximity_trace_spec_input:
  assumes tab: "DIST_LOOKUP_LEN \<le> length table"
  shows "inProximity_trace (Init_Sensor s0 ix 5 10 table) proximity_samples
    = Some [False, False, False, True, True, True, False, False, False]"
proof -
  let ?P = "\<lambda>ys s. Sensor_inv ys s \<and> length ys < 9 \<and> 16 \<le> length (proxTable s)
    \<and> psProxMin s = 5 \<and> psProxMax s = 10"
  have step: "\<exists>s'. Update_Sensor s p a = Some s'
      \<and> Sensor_inv (ys @ [(p, a)]) s' \<and> 16 \<le> length (proxTable s')
      \<and> psProxMin s' = 5 \<and> psProxMax s' = 10
      \<and> inProximity s' = (if inProximity s \<noteq> 0 \<and> p \<le> 5 then 0
           else if inProximity s = 0 \<and> 10 \<le> p then 1 else inProximity s)"
    if "?P ys s" for ys s p a
  proof -
    from that have inv: "Sensor_inv ys s" and "length ys + 1 < 2 ^ 32" and "16 \<le> length (proxTable s)"
      by simp_all
    then have "Update_Sensor s p a \<noteq> None" by (rule Update_Sensor_defined)
    then obtain s' where s': "Update_Sensor s p a = Some s'" by blast
    from inv s' have "Sensor_inv (ys @ [(p, a)]) s'" by (rule Sensor_inv_step)
    with s' that Update_Sensor_frame(1) [OF s'] Update_Sensor_flags(1,4,5) [OF s']
    show ?thesis by (simp add: Update_inProximity_def)
  qed
  let ?c = "Init_Sensor s0 ix 5 10 table"
  have c: "?P [] ?c" "inProximity ?c = 0"
    using tab Sensor_inv_reset by (simp_all add: Init_Sensor_def) (simp_all add: Reset_Sensor_def)
  from step [OF c(1), of 0 50] c(2) obtain s1 where s1: "Update_Sensor ?c 0 50 = Some s1"
    "?P [(0, 50)] s1" "inProximity s1 = 0" by auto
  from step [OF s1(2), of 0 50] s1(3) obtain s2 where s2: "Update_Sensor s1 0 50 = Some s2"
    "?P [(0, 50), (0, 50)] s2" "inProximity s2 = 0" by auto
  from step [OF s2(2), of 0 50] s2(3) obtain s3 where s3: "Update_Sensor s2 0 50 = Some s3"
    "?P [(0, 50), (0, 50), (0, 50)] s3" "inProximity s3 = 0" by auto
  from step [OF s3(2), of 12 50] s3(3) obtain s4 where s4: "Update_Sensor s3 12 50 = Some s4"
    "?P [(0, 50), (0, 50), (0, 50), (12, 50)] s4" "inProximity s4 = 1" by auto
  from step [OF s4(2), of 12 50] s4(3) obtain s5 where s5: "Update_Sensor s4 12 50 = Some s5"
    "?P [(0, 50), (0, 50), (0, 50), (12, 50), (12, 50)] s5" "inProximity s5 = 1" by auto
  from step [OF s5(2), of 12 50] s5(3) obtain s6 where s6: "Update_Sensor s5 12 50 = Some s6"
    "?P [(0, 50), (0, 50), (0, 50), (12, 50), (12, 50), (12, 50)] s6" "inProximity s6 = 1" by auto
  from step [OF s6(2), of 4 50] s6(3) obtain s7 where s7: "Update_Sensor s6 4 50 = Some s7"
    "?P [(0, 50), (0, 50), (0, 50), (12, 50), (12, 50), (12, 50), (4, 50)] s7" "inProximity s7 = 0" by auto
  from step [OF s7(2), of 4 50] s7(3) obtain s8 where s8: "Update_Sensor s7 4 50 = Some s8"
    "?P [(0, 50), (0, 50), (0, 50), (12, 50), (12, 50), (12, 50), (4, 50), (4, 50)] s8" "inProximity s8 = 0" by auto
  from step [OF s8(2), of 4 50] s8(3) obtain s9 where s9: "Update_Sensor s8 4 50 = Some s9"
    "inProximity s9 = 0" by auto
  show ?thesis
    by (simp add: proximity_samples_def s1 s2 s3 s4 s5 s6 s7 s8 s9)
qed

section \<open>Window sums, means and standard deviations\<close>

text \<open>
  C1. A run of \<^verbatim>\<open>Update_Sensor\<close> calls from a reset sensor is defined when it is shorter than
  \<open>2 ^ 32\<close> calls and the table holds \<^verbatim>\<open>DIST_LOOKUP_LEN\<close> entries; and after every defined
  run, \<open>sampleCount\<close> is the number of sample pairs fed, \<open>psWindowSum\<close> is the exact sum of
  the last \<open>min sampleCount 25\<close> proximity samples and \<open>alsWindowSum\<close> the exact sum of the
  last \<open>min sampleCount 25\<close> ambient samples.
\<close>

theorem window_sums_exact:
  "(DIST_LOOKUP_LEN \<le> length (proxTable s0) \<and> length xs < 2 ^ 32 \<longrightarrow>
      Update_all (Reset_Sensor s0) xs \<noteq> None)
   \<and> (Update_all (Reset_Sensor s0) xs = Some s \<longrightarrow>
        length xs < 2 ^ 32 \<and> unat (sampleCount s) = length xs
        \<and> length (last_samples PS_WINDOW xs) = min (unat (sampleCount s)) PS_WINDOW
        \<and> unat (psWindowSum s) = sum_list (map (unat \<circ> fst) (last_samples PS_WINDOW xs))
        \<and> unat (alsWindowSum s) = sum_list (map (unat \<circ> snd) (last_samples ALS_WINDOW xs)))"
proof (intro conjI impI)
  assume "DIST_LOOKUP_LEN \<le> length (proxTable s0) \<and> length xs < 2 ^ 32"
  then show "Update_all (Reset_Sensor s0) xs \<noteq> None"
    using Update_all_defined [of s0 xs] by simp
next
  assume "Update_all (Reset_Sensor s0) xs = Some s"
  then have inv: "Sensor_inv xs s" by (rule Update_all_inv)
  then show "length xs < 2 ^ 32"
    and "unat (psWindowSum s) = sum_list (map (unat \<circ> fst) (last_samples PS_WINDOW xs))"
    and "unat (alsWindowSum s) = sum_list (map (unat \<circ> snd) (last_samples ALS_WINDOW xs))"
    by (simp_all add: Sensor_inv_def)
  from inv show count: "unat (sampleCount s) = length xs"
    by (simp add: Sensor_inv_def unat_of_nat_u32)
  show "length (last_samples PS_WINDOW xs) = min (unat (sampleCount s)) PS_WINDOW"
    unfolding count by (simp add: length_last_samples min.commute)
qed

theorem window_sums_exact_witness:
  "DIST_LOOKUP_LEN \<le> length (proxTable example_sensor) \<and> length ramp < 2 ^ 32
   \<and> Update_all (Reset_Sensor example_sensor) ramp \<noteq> None
   \<and> (\<exists>s. Update_all (Reset_Sensor example_sensor) ramp = Some s
         \<and> unat (sampleCount s) = 30 \<and> psWindowSum s = 425 \<and> alsWindowSum s = 850)"
proof -
  have pre: "DIST_LOOKUP_LEN \<le> length (proxTable example_sensor) \<and> length ramp < 2 ^ 32"
    by (simp add: example_sensor_eq example_table_def ramp_sums)
  with window_sums_exact [of example_sensor ramp]
  obtain s where s: "Update_all (Reset_Sensor example_sensor) ramp = Some s"
    by blast
  with window_sums_exact [of example_sensor ramp s]
  have "unat (sampleCount s) = 30" "unat (psWindowSum s) = 425" "unat (alsWindowSum s) = 850"
    by (simp_all add: ramp_sums)
  moreover have "unat (425 :: u32) = 425" "unat (850 :: u32) = 850" by simp_all
  ultimately have "unat (sampleCount s) = 30" "psWindowSum s = 425" "alsWindowSum s = 850"
    by (simp_all add: word_unat_eq_iff)
  with pre s show ?thesis by simp
qed

text \<open>
  C6, for the runs on which it holds. In a run of fewer than \<open>2 ^ 32\<close> calls from a reset
  sensor whose table holds \<^verbatim>\<open>DIST_LOOKUP_LEN\<close> entries, every call of \<^verbatim>\<open>Update_Sensor\<close> is
  defined, and after it \<open>psMean\<close> is the floor of the new \<open>psWindowSum\<close> over
  \<open>min (sampleCount + 1) 25\<close> and \<open>alsMean\<close> the floor of the new \<open>alsWindowSum\<close> over the same
  number, with \<open>sampleCount\<close> read before the call. That count is the number of samples fed
  before the call, so that the divisor is \<open>min n 25\<close> for the \<open>n\<close>-th sample.
\<close>

theorem means_are_floors_of_window_means:
  assumes "DIST_LOOKUP_LEN \<le> length (proxTable s0)" and "length ys + 1 < 2 ^ 32"
  shows "\<exists>t t'. Update_all (Reset_Sensor s0) ys = Some t
    \<and> Update_Sensor t psVal alsVal = Some t'
    \<and> Update_all (Reset_Sensor s0) (ys @ [(psVal, alsVal)]) = Some t'
    \<and> unat (sampleCount t) = length ys
    \<and> int (unat (psMean t'))
        = \<lfloor>real (unat (psWindowSum t')) / real (min (unat (sampleCount t) + 1) PS_WINDOW)\<rfloor>
    \<and> int (unat (alsMean t'))
        = \<lfloor>real (unat (alsWindowSum t')) / real (min (unat (sampleCount t) + 1) ALS_WINDOW)\<rfloor>"
proof -
  from assms obtain t t' where run: "Update_all (Reset_Sensor s0) ys = Some t"
    and upd: "Update_Sensor t psVal alsVal = Some t'"
    and count: "unat (sampleCount t) = length ys"
    and means: "unat (psMean t') = unat (psWindowSum t') div min (length ys + 1) 25"
      "unat (alsMean t') = unat (alsWindowSum t') div min (length ys + 1) 25"
    by (rule Update_all_means) blast
  from run upd have "Update_all (Reset_Sensor s0) (ys @ [(psVal, alsVal)]) = Some t'"
    by (simp add: Update_all_snoc)
  moreover have "int (unat (psMean t'))
      = \<lfloor>real (unat (psWindowSum t')) / real (min (unat (sampleCount t) + 1) PS_WINDOW)\<rfloor>"
    unfolding floor_div_nat [symmetric] means count ..
  moreover have "int (unat (alsMean t'))
      = \<lfloor>real (unat (alsWindowSum t')) / real (min (unat (sampleCount t) + 1) ALS_WINDOW)\<rfloor>"
    unfolding floor_div_nat [symmetric] means count ..
  ultimately show ?thesis using run upd count by blast
qed

theorem means_are_floors_of_window_means_witness:
  "DIST_LOOKUP_LEN \<le> length (proxTable example_sensor) \<and> length (butlast ramp) + 1 < 2 ^ 32
   \<and> (\<exists>t t'. Update_all (Reset_Sensor example_sensor) (butlast ramp) = Some t
         \<and> Update_Sensor t 29 58 = Some t' \<and> unat (sampleCount t) = 29
         \<and> psWindowSum t' = 425 \<and> psMean t' = 17 \<and> alsWindowSum t' = 850 \<and> alsMean t' = 34)
   \<and> (\<exists>t'. Update_all (Reset_Sensor example_sensor) [(12, 0)] = Some example_near
         \<and> Update_Sensor example_near 7 5 = Some t' \<and> unat (sampleCount example_near) = 1
         \<and> psWindowSum t' = 19 \<and> psMean t' = 9 \<and> alsWindowSum t' = 5 \<and> alsMean t' = 2)"
proof -
  have pre: "DIST_LOOKUP_LEN \<le> length (proxTable example_sensor)"
    "length (butlast ramp) + 1 < 2 ^ 32" "length [(12 :: u16, 0 :: u16)] + 1 < 2 ^ 32"
    by (simp_all add: example_table_length ramp_sums)
  from means_are_floors_of_window_means [OF pre(1,2), of 29 58]
  obtain t t' where run: "Update_all (Reset_Sensor example_sensor) (butlast ramp) = Some t"
    and upd: "Update_Sensor t 29 58 = Some t'"
    and run': "Update_all (Reset_Sensor example_sensor) (butlast ramp @ [(29, 58)]) = Some t'"
    and count: "unat (sampleCount t) = length (butlast ramp)"
    and means: "int (unat (psMean t'))
        = \<lfloor>real (unat (psWindowSum t')) / real (min (unat (sampleCount t) + 1) PS_WINDOW)\<rfloor>"
      "int (unat (alsMean t'))
        = \<lfloor>real (unat (alsWindowSum t')) / real (min (unat (sampleCount t) + 1) ALS_WINDOW)\<rfloor>"
    by blast
  from run' have "Sensor_inv ramp t'"
    unfolding ramp_snoc by (rule Update_all_inv)
  then have sums: "unat (psWindowSum t') = 425" "unat (alsWindowSum t') = 850"
    by (simp_all add: Sensor_inv_def ramp_sums)
  from means have "uint (psMean t') = uint (17 :: u16)" "uint (alsMean t') = uint (34 :: u16)"
    unfolding sums count ramp_snoc by simp_all
  then have mean: "psMean t' = 17" "alsMean t' = 34"
    by (simp_all only: word_uint_eq_iff)
  from sums
  have "unat (psWindowSum t') = unat (425 :: u32)" "unat (alsWindowSum t') = unat (850 :: u32)"
    by simp_all
  then have "psWindowSum t' = 425" "alsWindowSum t' = 850"
    by (simp_all only: word_unat_eq_iff)
  with mean have full: "psWindowSum t' = 425" "psMean t' = 17" "alsWindowSum t' = 850" "alsMean t' = 34"
    by simp_all
  from means_are_floors_of_window_means [OF pre(1,3), of 7 5]
  obtain u u' where "Update_all (Reset_Sensor example_sensor) [(12, 0)] = Some u"
    and "Update_Sensor u 7 5 = Some u'" and "unat (sampleCount u) = length [(12 :: u16, 0 :: u16)]"
    by blast
  moreover have near: "Update_all (Reset_Sensor example_sensor) [(12, 0)] = Some example_near"
    by (simp add: example_sensor_reset example_near_step)
  ultimately have u: "u = example_near" "Update_Sensor example_near 7 5 = Some u'"
    "unat (sampleCount example_near) = 1"
    by simp_all
  with example_near_mean
  have "psWindowSum u' = 19 \<and> psMean u' = 9 \<and> alsWindowSum u' = 5 \<and> alsMean u' = 2"
    by simp
  with near u have "\<exists>t'. Update_all (Reset_Sensor example_sensor) [(12, 0)] = Some example_near
         \<and> Update_Sensor example_near 7 5 = Some t' \<and> unat (sampleCount example_near) = 1
         \<and> psWindowSum t' = 19 \<and> psMean t' = 9 \<and> alsWindowSum t' = 5 \<and> alsMean t' = 2"
    by blast
  moreover from run upd count full
  have "\<exists>t t'. Update_all (Reset_Sensor example_sensor) (butlast ramp) = Some t
         \<and> Update_Sensor t 29 58 = Some t' \<and> unat (sampleCount t) = 29
         \<and> psWindowSum t' = 425 \<and> psMean t' = 17 \<and> alsWindowSum t' = 850 \<and> alsMean t' = 34"
    unfolding ramp_snoc by blast
  ultimately show ?thesis using pre(1,2) by blast
qed

text \<open>
  The \<open>2 ^ 32\<close>-th call of a run is reached with \<open>sampleCount = 2 ^ 32 - 1\<close>. There
  \<^verbatim>\<open>sampleCount + 1\<close> wraps to 0, the test against \<^verbatim>\<open>PS_WINDOW\<close> fails, the proximity sum is
  divided by 0 and the conversion of the quotient to \<^verbatim>\<open>uint16_t\<close> is not defined: the call
  gives no mean.
\<close>

theorem means_are_floors_of_window_means_counterexample:
  "map_option (\<lambda>t. (sampleCount t, Update_Sensor t 7 3))
     (Update_all (Reset_Sensor example_sensor) (replicate 4294967295 (7, 3)))
   = Some (4294967295, None)"
proof -
  have "25 \<le> (4294967295 :: nat)" "(4294967295 :: nat) < 2 ^ 32" by simp_all
  with example_table_length
  obtain t where run: "Update_all (Reset_Sensor example_sensor) (replicate 4294967295 (7, 3)) = Some t"
    and count: "sampleCount t = of_nat 4294967295"
    by (rule constant_run) blast
  from count have count: "sampleCount t = 4294967295" by simp
  then have "unat (sampleCount t) + 1 = 2 ^ 32" by simp
  then have "Update_Sensor t 7 3 = None" by (rule Update_Sensor_wrap)
  with run count show ?thesis by simp
qed

text \<open>
  C7. A sensor with a table of \<^verbatim>\<open>DIST_LOOKUP_LEN\<close> entries is reset and fed the same sample
  pair 7, 3 at every call. After \<open>2 ^ 31\<close> calls both standard deviations are 0, as they are
  for windows of equal samples. After one call more both are not numbers, although the
  windows still hold equal samples and the same call leaves the right window sums (175
  and 75) and means (7 and 3): the loops test \<^verbatim>\<open>((int) sensor->sampleCount) - i >= 0\<close>, which is
  false at \<open>i = 0\<close> once \<open>sampleCount\<close> has reached \<open>2 ^ 31\<close>, so that they add no deviation and the
  sum is divided by \<open>i = 0\<close>.
\<close>

theorem STD_after_2_31_calls:
  "map_option (\<lambda>s. (psSTD s, alsSTD s))
     (Update_all (Reset_Sensor example_sensor) (replicate 2147483648 (7, 3)))
   = Some (Num 0, Num 0)
   \<and> map_option
       (\<lambda>s. (sampleCount s, psWindowSum s, psMean s, alsWindowSum s, alsMean s, psSTD s, alsSTD s))
       (Update_all (Reset_Sensor example_sensor) (replicate 2147483649 (7, 3)))
     = Some (2147483649, 175, 7, 75, 3, NaN_or_Inf, NaN_or_Inf)"
proof -
  have "25 \<le> (2147483648 :: nat)" "(2147483648 :: nat) < 2 ^ 32" by simp_all
  with example_table_length
  obtain s where s: "Update_all (Reset_Sensor example_sensor) (replicate 2147483648 (7, 3)) = Some s"
    and "2147483648 \<le> (2 :: nat) ^ 31 \<Longrightarrow> psSTD s = Num 0 \<and> alsSTD s = Num 0"
    by (rule constant_run) blast
  then have short: "psSTD s = Num 0" "alsSTD s = Num 0" by simp_all
  have "25 \<le> (2147483649 :: nat)" "(2147483649 :: nat) < 2 ^ 32" by simp_all
  with example_table_length
  obtain t where t: "Update_all (Reset_Sensor example_sensor) (replicate 2147483649 (7, 3)) = Some t"
    and v: "sampleCount t = of_nat 2147483649"
      "psWindowSum t = of_nat (25 * unat (7 :: u16))" "psMean t = 7"
      "alsWindowSum t = of_nat (25 * unat (3 :: u16))" "alsMean t = 3"
    and "(2 :: nat) ^ 31 < 2147483649 \<Longrightarrow> psSTD t = NaN_or_Inf \<and> alsSTD t = NaN_or_Inf"
    by (rule constant_run) blast
  then have long: "psSTD t = NaN_or_Inf" "alsSTD t = NaN_or_Inf" by simp_all
  from v have "sampleCount t = 2147483649" "psWindowSum t = 175" "alsWindowSum t = 75"
    by simp_all
  with s t short long v(3,5) show ?thesis by simp
qed

section \<open>The presence flag and the blocked flag\<close>

text \<open>
  C2. From a reset sensor on, after every call of \<^verbatim>\<open>Update_Sensor\<close> the flag \<open>isBlocked\<close> is
  clear whenever \<open>inProximity\<close> is clear. For a call from any state: \<open>isBlocked\<close> is clear
  after a call that leaves \<open>inProximity\<close> clear, and a call that sets \<open>isBlocked\<close> leaves
  \<open>inProximity\<close> set.
\<close>

theorem Update_Sensor_blocked_implies_proximity:
  "(Update_all (Reset_Sensor s0) xs = Some s \<longrightarrow> (inProximity s = 0 \<longrightarrow> isBlocked s = 0))
   \<and> (Update_Sensor t psVal alsVal = Some t' \<longrightarrow>
        (inProximity t' = 0 \<longrightarrow> isBlocked t' = 0)
        \<and> (isBlocked t = 0 \<and> isBlocked t' \<noteq> 0 \<longrightarrow> inProximity t' \<noteq> 0))"
  using Update_all_flags [of s0 xs s] Update_Sensor_flags(2,3) [of t psVal alsVal t'] by blast

theorem Update_Sensor_blocked_implies_proximity_witness:
  "Update_all (Reset_Sensor example_sensor) [(12, 0)] = Some example_near
   \<and> isBlocked example_near = 1 \<and> inProximity example_near = 1
   \<and> Update_Sensor example_sensor 12 0 = Some example_near
   \<and> isBlocked example_sensor = 0
   \<and> (\<exists>t'. Update_Sensor example_near 4 0 = Some t' \<and> inProximity t' = 0 \<and> isBlocked t' = 0)"
proof -
  have reset: "Reset_Sensor example_sensor = example_sensor"
    by (simp add: example_sensor_eq Reset_Sensor_def)
  have run: "Update_all (Reset_Sensor example_sensor) [(12, 0)] = Some example_near"
    by (simp add: reset example_near_step)
  obtain t' where t': "Update_Sensor example_near 4 0 = Some t'" "inProximity t' = 0"
    using example_near_exit by auto
  from Update_Sensor_blocked_implies_proximity [of example_sensor "[(12, 0)]" example_near example_near 4 0 t'] t'
  have "isBlocked t' = 0" by simp
  with t' run show ?thesis
    by (auto simp: example_near_step) (simp_all add: example_near_def example_sensor_eq)
qed

text \<open>
  C3. For every state of the sensor and every sample pair whose proximity value lies strictly
  between the exit threshold \<open>psProxMin\<close> and the enter threshold \<open>psProxMax\<close>, a call of
  \<^verbatim>\<open>Update_Sensor\<close> leaves \<open>inProximity\<close> as it was.
\<close>

theorem Update_Sensor_band_holds_flag:
  assumes "psProxMin s < psVal" and "psVal < psProxMax s"
    and "Update_Sensor s psVal alsVal = Some s'"
  shows "inProximity s' = inProximity s"
proof -
  from assms(1,2) have "\<not> psVal \<le> psProxMin s" "\<not> psProxMax s \<le> psVal"
    by simp_all
  then have "Update_inProximity s psVal = s"
    by (simp add: Update_inProximity_def)
  with Update_Sensor_flags(1) [OF assms(3)] show ?thesis
    by simp
qed

theorem Update_Sensor_band_holds_flag_witness:
  "psProxMin example_near < 7 \<and> 7 < psProxMax example_near \<and> inProximity example_near = 1
   \<and> (\<exists>s'. Update_Sensor example_near 7 0 = Some s' \<and> inProximity s' = 1)
   \<and> psProxMin example_sensor < 7 \<and> 7 < psProxMax example_sensor \<and> inProximity example_sensor = 0
   \<and> (\<exists>s'. Update_Sensor example_sensor 7 0 = Some s' \<and> inProximity s' = 0)"
proof -
  have near: "psProxMin example_near < 7" "7 < psProxMax example_near" "inProximity example_near = 1"
    by (simp_all add: example_near_def)
  have far: "psProxMin example_sensor < 7" "7 < psProxMax example_sensor" "inProximity example_sensor = 0"
    by (simp_all add: example_sensor_eq)
  obtain s1 where s1: "Update_Sensor example_near 7 0 = Some s1"
    using example_near_band by auto
  obtain s2 where s2: "Update_Sensor example_sensor 7 0 = Some s2"
    using example_far_band by auto
  from Update_Sensor_band_holds_flag [OF near(1,2) s1] near(3) have "inProximity s1 = 1" by simp
  moreover from Update_Sensor_band_holds_flag [OF far(1,2) s2] far(3) have "inProximity s2 = 0" by simp
  ultimately show ?thesis using near far s1 s2 by simp
qed

text \<open>
  C4, as the code has it. After \<^verbatim>\<open>Init_Sensor\<close> with the exit threshold 5, the enter threshold 10
  and a table of \<^verbatim>\<open>DIST_LOOKUP_LEN\<close> entries or more, the nine sample pairs with the proximity
  values 0, 0, 0, 12, 12, 12, 4, 4, 4 and the ambient value 50 give the flags false, false,
  false, true, true, true, false, false, false: the sensor enters at the sample of index 3
  and leaves at the sample of index 6, the first raw value that is at most the exit
  threshold.
\<close>

theorem end_to_end_inProximity:
  assumes "DIST_LOOKUP_LEN \<le> length table"
  shows "inProximity_trace (Init_Sensor s0 ix 5 10 table) proximity_samples
    = Some [False, False, False, True, True, True, False, False, False]"
  using assms by (rule inProximity_trace_spec_input)

theorem end_to_end_inProximity_witness:
  "DIST_LOOKUP_LEN \<le> length example_table
   \<and> inProximity_trace example_sensor proximity_samples
       = Some [False, False, False, True, True, True, False, False, False]"
proof -
  have "DIST_LOOKUP_LEN \<le> length example_table"
    by (simp add: example_table_def)
  with end_to_end_inProximity [of example_table example_memory 0] show ?thesis
    by (simp add: example_sensor_def)
qed

theorem end_to_end_inProximity_counterexample:
  "inProximity_trace (Init_Sensor example_memory 0 5 10 example_table) proximity_samples
     \<noteq> Some [False, False, False, True, True, True, True, True, False]"
proof -
  have "DIST_LOOKUP_LEN \<le> length example_table"
    by (simp add: example_table_def)
  then have "inProximity_trace (Init_Sensor example_memory 0 5 10 example_table) proximity_samples
      = Some [False, False, False, True, True, True, False, False, False]"
    by (rule inProximity_trace_spec_input)
  then show ?thesis by simp
qed

section \<open>Distance lookup: results and bounds\<close>

text \<open>
  C5. For tables that hold at least \<open>tableLen\<close> entries, with \<open>tableLen\<close> at least 1:
  \<^verbatim>\<open>Distance_Lookup\<close> returns \<open>distTable[0]\<close> when \<open>psVal\<close> is at least \<open>proxTable[0]\<close>; when
  \<open>i > 0\<close> is the smallest index with \<open>psVal \<ge> proxTable[i]\<close>, it returns the value of the
  line through the table points \<open>i - 1\<close> and \<open>i\<close> at \<open>psVal\<close>; and when \<open>psVal\<close> is below
  every \<open>proxTable[i]\<close> with \<open>i < tableLen\<close>, it returns \<open>distTable[tableLen - 1]\<close>.
\<close>

theorem Distance_Lookup_cases:
  assumes "1 \<le> unat tableLen" and "unat tableLen \<le> length pt" and "unat tableLen \<le> length dt"
  shows "(pt ! 0 \<le> psVal \<longrightarrow>
            Distance_Lookup psVal pt dt tableLen = Some (Num (real (unat (dt ! 0)))))
    \<and> (\<forall>i. 0 < i \<and> i < unat tableLen \<and> pt ! i \<le> psVal \<and> (\<forall>j<i. psVal < pt ! j) \<longrightarrow>
            Distance_Lookup psVal pt dt tableLen =
              Some (Num (real (unat (dt ! (i - 1))) +
                (real (unat psVal) - real (unat (pt ! (i - 1))))
                  * (real (unat (dt ! i)) - real (unat (dt ! (i - 1))))
                  / (real (unat (pt ! i)) - real (unat (pt ! (i - 1)))))))
    \<and> ((\<forall>j<unat tableLen. psVal < pt ! j) \<longrightarrow>
            Distance_Lookup psVal pt dt tableLen = Some (Num (real (unat (dt ! (unat tableLen - 1))))))"
  using assms Distance_Lookup_first [of tableLen pt dt psVal]
    Distance_Lookup_interpolate [of tableLen pt dt _ psVal]
    Distance_Lookup_fallback [of tableLen pt dt psVal]
  by blast

theorem Distance_Lookup_cases_witness:
  "Distance_Lookup 35 [30, 20, 10, 5] [30, 20, 10, 0] 4 = Some (Num 30)
   \<and> Distance_Lookup 25 [30, 20, 10, 5] [30, 20, 10, 0] 4 = Some (Num 25)
   \<and> Distance_Lookup 12 [30, 20, 10, 5] [30, 20, 10, 0] 4 = Some (Num 12)
   \<and> Distance_Lookup 3 [30, 20, 10, 5] [30, 20, 10, 0] 4 = Some (Num 0)"
proof -
  let ?pt = "[30, 20, 10, 5] :: u16 list" and ?dt = "[30, 20, 10, 0] :: u16 list"
  have len: "1 \<le> unat (4 :: u8)" "unat (4 :: u8) \<le> length ?pt" "unat (4 :: u8) \<le> length ?dt"
    by simp_all
  have below2: "(j::nat) < 2 \<longleftrightarrow> j = 0 \<or> j = 1" for j
    by auto
  have below: "(j::nat) < 4 \<longleftrightarrow> j = 0 \<or> j = 1 \<or> j = 2 \<or> j = 3" for j
    by auto
  have "Distance_Lookup 35 ?pt ?dt 4 = Some (Num 30)"
    using Distance_Lookup_cases [OF len, of 35] by simp
  moreover have "Distance_Lookup 25 ?pt ?dt 4 = Some (Num 25)"
    using Distance_Lookup_cases [OF len, of 25, THEN conjunct2, THEN conjunct1, THEN spec, of 1] by simp
  moreover have "Distance_Lookup 12 ?pt ?dt 4 = Some (Num 12)"
    using Distance_Lookup_cases [OF len, of 12, THEN conjunct2, THEN conjunct1, THEN spec, of 2]
    by (simp add: below2)
  moreover have "Distance_Lookup 3 ?pt ?dt 4 = Some (Num 0)"
    using Distance_Lookup_cases [OF len, of 3, THEN conjunct2, THEN conjunct2] by (simp add: below)
  ultimately show ?thesis by simp
qed

text \<open>
  C10. With \<open>tableLen\<close> at least 1 and tables that hold \<open>tableLen\<close> entries (or more), no read
  of \<^verbatim>\<open>Distance_Lookup\<close> leaves its table: the call has a defined result, and the entries
  from index \<open>tableLen\<close> on play no part in it. With \<open>tableLen\<close> equal to 0 the read after
  the loop is at index \<open>-1\<close>, outside the table, and the result is undefined.
\<close>

theorem Distance_Lookup_in_bounds:
  "(1 \<le> unat tableLen \<and> unat tableLen \<le> length pt \<and> unat tableLen \<le> length dt \<longrightarrow>
      Distance_Lookup psVal pt dt tableLen \<noteq> None)
   \<and> Distance_Lookup psVal (take (unat tableLen) pt) (take (unat tableLen) dt) tableLen
       = Distance_Lookup psVal pt dt tableLen
   \<and> uint (0 :: u8) - 1 = - 1 \<and> elem dt (- 1) = None
   \<and> Distance_Lookup psVal pt dt 0 = None"
  using Distance_Lookup_from_defined [of tableLen pt dt 0 psVal]
    Distance_Lookup_from_take [of 0 psVal tableLen pt dt]
  by (simp add: Distance_Lookup_def Distance_Lookup_zero_length [unfolded Distance_Lookup_def] elem_def)

theorem Distance_Lookup_in_bounds_witness:
  "Distance_Lookup 3 [30, 20, 10, 5] [30, 20, 10, 0] 4 = Some (Num 0)
   \<and> Distance_Lookup 3 [30, 20, 10, 5] [30, 20, 10, 0] 4 \<noteq> None
   \<and> Distance_Lookup 3 [30, 20, 10, 5] [30, 20, 10, 0] 0 = None
   \<and> Distance_Lookup 3 [30, 20, 10, 5] [30, 20, 10, 0] 5 = None"
proof -
  have "Distance_Lookup 3 [30, 20, 10, 5] [30, 20, 10, 0] 4 \<noteq> None"
    using Distance_Lookup_in_bounds [of 4 "[30, 20, 10, 5]" "[30, 20, 10, 0]" 3] by simp
  moreover have "Distance_Lookup 3 [30, 20, 10, 5] [30, 20, 10, 0] 4 = Some (Num 0)"
    "Distance_Lookup 3 [30, 20, 10, 5] [30, 20, 10, 0] 0 = None"
    "Distance_Lookup 3 [30, 20, 10, 5] [30, 20, 10, 0] 5 = None"
    by (simp_all add: Distance_Lookup_def Distance_Lookup_from.simps elem_def to_double_def)
  ultimately show ?thesis by simp
qed

section \<open>Reset and initialisation\<close>

text \<open>
  C8. \<^verbatim>\<open>Reset_Sensor\<close> clears the sample count, the window sums, the means, the standard
  deviations, every slot of both histories and both flags; it leaves \<open>index\<close>, the two
  thresholds and the table as they were; and a second reset changes nothing.
\<close>

theorem Reset_Sensor_effect:
  "sampleCount (Reset_Sensor s) = 0
   \<and> psWindowSum (Reset_Sensor s) = 0 \<and> alsWindowSum (Reset_Sensor s) = 0
   \<and> psMean (Reset_Sensor s) = 0 \<and> psSTD (Reset_Sensor s) = Num 0
   \<and> alsMean (Reset_Sensor s) = 0 \<and> alsSTD (Reset_Sensor s) = Num 0
   \<and> psHist (Reset_Sensor s) = replicate SENSOR_HIST_LEN 0
   \<and> alsHist (Reset_Sensor s) = replicate SENSOR_HIST_LEN 0
   \<and> inProximity (Reset_Sensor s) = 0 \<and> isBlocked (Reset_Sensor s) = 0
   \<and> index (Reset_Sensor s) = index s
   \<and> psProxMin (Reset_Sensor s) = psProxMin s \<and> psProxMax (Reset_Sensor s) = psProxMax s
   \<and> proxTable (Reset_Sensor s) = proxTable s
   \<and> Reset_Sensor (Reset_Sensor s) = Reset_Sensor s"
  by (simp add: Reset_Sensor_def)

text \<open>
  C9. Neither \<^verbatim>\<open>Reset_Sensor\<close> nor \<^verbatim>\<open>Init_Sensor\<close> writes \<open>estimatedDistance\<close>: after either, the
  field holds what the memory of the struct held before, whatever that was. A call of
  \<^verbatim>\<open>Update_Sensor\<close> assigns it the distance looked up for the new proximity mean.
\<close>

theorem estimatedDistance_not_written:
  "estimatedDistance (Reset_Sensor s) = estimatedDistance s
   \<and> estimatedDistance (Init_Sensor s ix pMin pMax table) = estimatedDistance s
   \<and> (Update_Sensor t psVal alsVal = Some t' \<longrightarrow>
        Distance_Lookup (psMean t') (proxTable t) distanceTable (of_nat DIST_LOOKUP_LEN)
          = Some (estimatedDistance t'))"
  using Update_Sensor_estimatedDistance [of t psVal alsVal t']
  by (simp add: Reset_Sensor_def Init_Sensor_def)

theorem estimatedDistance_not_written_witness:
  "estimatedDistance example_memory = Num 5
   \<and> estimatedDistance (Reset_Sensor example_memory) = Num 5
   \<and> estimatedDistance (Init_Sensor example_memory 0 5 10 example_table) = Num 5
   \<and> Update_Sensor example_sensor 12 0 = Some example_near
   \<and> Distance_Lookup (psMean example_near) (proxTable example_sensor) distanceTable 16
       = Some (estimatedDistance example_near)
   \<and> estimatedDistance example_near = Num (744 / 25)"
  using estimatedDistance_not_written [of example_memory 0 5 10 example_table example_sensor 12 0 example_near]
  by (simp add: example_near_step) (simp add: example_memory_def example_near_def)

end
